theory Spec2Isabelle
  imports Complex_Main
begin

section \<open>Respiration-controlled music: numbers\<close>

text \<open>
  The four bridge scripts of \<^verbatim>\<open>resp_music\<close> (\<^verbatim>\<open>resp_live_play.py\<close>,
  \<^verbatim>\<open>resp_live_mod.py\<close>, \<^verbatim>\<open>resp_prerec_play.py\<close>, \<^verbatim>\<open>resp_prerec_mod.py\<close>) filter a
  respiration amplitude, map it to a MIDI note or controller value and send it to a MIDI
  port, while a queue relays the filtered values to a visualiser. The amplitudes are
  Python floats and numpy \<^verbatim>\<open>float64\<close> values: IEEE 754 binary64 numbers. They are modelled
  as such, with infinities, NaN, and every arithmetic result rounded to the nearest
  representable number, ties to the even significand. The sign of zero is not kept: no
  operation of the scripts tells the two zeros apart (there is no division by a zero and
  no \<^verbatim>\<open>copysign\<close>).
\<close>

subsection \<open>Rounding to an integer\<close>

text \<open>
  \<^verbatim>\<open>round(v)\<close> with one argument, for a Python float and for a numpy \<^verbatim>\<open>float64\<close> alike,
  goes to the nearest integer and sends a tie to the even neighbour.
\<close>

definition py_round :: "real \<Rightarrow> int" where
  "py_round v =
     (let f = \<lfloor>v\<rfloor>; d = v - of_int f
      in if d < 1 / 2 then f
         else if 1 / 2 < d then f + 1
         else if even f then f else f + 1)"

subsection \<open>Binary64 values and the rounding of a real result\<close>

datatype double = Finite real | PosInf | NegInf | NaN

text \<open>
  The binary exponent of a positive magnitude \<open>a\<close>: the \<open>e\<close> between \<open>-1022\<close> and \<open>1023\<close>
  with \<open>2 ^ e \<le> a < 2 ^ (e + 1)\<close>, found by stepping up from 0 or down from 0, and held at
  \<open>-1022\<close> for subnormal magnitudes and at \<open>1023\<close> for magnitudes beyond the range.
\<close>

function bexp_up :: "int \<Rightarrow> real \<Rightarrow> int" where
  "bexp_up e a = (if e < 1023 \<and> 2 powi (e + 1) \<le> a then bexp_up (e + 1) a else e)"
  by pat_completeness auto
termination
  by (relation "measure (\<lambda>(e, a). nat (1023 - e))") auto

function bexp_down :: "int \<Rightarrow> real \<Rightarrow> int" where
  "bexp_down e a = (if - 1022 < e \<and> a < 2 powi e then bexp_down (e - 1) a else e)"
  by pat_completeness auto
termination
  by (relation "measure (\<lambda>(e, a). nat (e + 1022))") auto

declare bexp_up.simps [simp del] bexp_down.simps [simp del]

definition bexp :: "real \<Rightarrow> int" where
  "bexp a = (if 1 \<le> a then bexp_up 0 a else bexp_down 0 a)"

text \<open>
  A magnitude with exponent \<open>e\<close> is rounded to a multiple of \<open>2 ^ (e - 52)\<close> (53
  significant bits), the nearest one, ties to even. A result whose rounded magnitude
  reaches \<open>2 ^ 1024\<close> overflows to an infinity.
\<close>

definition round_mag :: "real \<Rightarrow> real" where
  "round_mag a = (let u = 2 powi (bexp a - 52) in of_int (py_round (a / u)) * u)"

definition rnd :: "real \<Rightarrow> double" where
  "rnd x =
     (let r = round_mag \<bar>x\<bar>
      in if 2 powi 1024 \<le> r then (if 0 < x then PosInf else NegInf)
         else Finite (if x < 0 then - r else r))"

text \<open>A real number is a binary64 value when rounding leaves it as it is.\<close>

definition is_double :: "real \<Rightarrow> bool" where
  "is_double x = (rnd x = Finite x)"

subsection \<open>Comparison and arithmetic\<close>

text \<open>
  \<^verbatim>\<open><=\<close> and \<^verbatim>\<open><\<close>: false as soon as one side is NaN.
\<close>

fun dle :: "double \<Rightarrow> double \<Rightarrow> bool" where
  "dle NaN b = False"
| "dle a NaN = False"
| "dle NegInf b = True"
| "dle a PosInf = True"
| "dle (Finite x) (Finite y) = (x \<le> y)"
| "dle a b = False"

fun dlt :: "double \<Rightarrow> double \<Rightarrow> bool" where
  "dlt NaN b = False"
| "dlt a NaN = False"
| "dlt (Finite x) (Finite y) = (x < y)"
| "dlt NegInf NegInf = False"
| "dlt PosInf PosInf = False"
| "dlt NegInf b = True"
| "dlt a PosInf = True"
| "dlt a b = False"

text \<open>
  The four operations: the exact result of finite operands is rounded; the special values
  follow IEEE 754. \<open>fdiv\<close> is the division of numpy, which yields an infinity or NaN
  for a zero divisor; \<open>py_truediv\<close> below is the division of Python floats, which raises.
\<close>

fun fneg :: "double \<Rightarrow> double" where
  "fneg (Finite x) = Finite (- x)"
| "fneg PosInf = NegInf"
| "fneg NegInf = PosInf"
| "fneg NaN = NaN"

fun fadd :: "double \<Rightarrow> double \<Rightarrow> double" where
  "fadd NaN b = NaN"
| "fadd a NaN = NaN"
| "fadd (Finite x) (Finite y) = rnd (x + y)"
| "fadd PosInf NegInf = NaN"
| "fadd NegInf PosInf = NaN"
| "fadd PosInf b = PosInf"
| "fadd a PosInf = PosInf"
| "fadd NegInf b = NegInf"
| "fadd a NegInf = NegInf"

definition fsub :: "double \<Rightarrow> double \<Rightarrow> double" where
  "fsub a b = fadd a (fneg b)"

fun fmul :: "double \<Rightarrow> double \<Rightarrow> double" where
  "fmul NaN b = NaN"
| "fmul a NaN = NaN"
| "fmul (Finite x) (Finite y) = rnd (x * y)"
| "fmul (Finite x) PosInf = (if x = 0 then NaN else if 0 < x then PosInf else NegInf)"
| "fmul (Finite x) NegInf = (if x = 0 then NaN else if 0 < x then NegInf else PosInf)"
| "fmul PosInf (Finite y) = (if y = 0 then NaN else if 0 < y then PosInf else NegInf)"
| "fmul NegInf (Finite y) = (if y = 0 then NaN else if 0 < y then NegInf else PosInf)"
| "fmul PosInf PosInf = PosInf"
| "fmul PosInf NegInf = NegInf"
| "fmul NegInf PosInf = NegInf"
| "fmul NegInf NegInf = PosInf"

fun fdiv :: "double \<Rightarrow> double \<Rightarrow> double" where
  "fdiv NaN b = NaN"
| "fdiv a NaN = NaN"
| "fdiv (Finite x) (Finite y) =
     (if y = 0 then (if x = 0 then NaN else if 0 < x then PosInf else NegInf)
      else rnd (x / y))"
| "fdiv (Finite x) PosInf = Finite 0"
| "fdiv (Finite x) NegInf = Finite 0"
| "fdiv PosInf (Finite y) = (if 0 \<le> y then PosInf else NegInf)"
| "fdiv NegInf (Finite y) = (if 0 \<le> y then NegInf else PosInf)"
| "fdiv a b = NaN"

section \<open>The amplitude mappers\<close>

text \<open>Exceptions the modelled code can raise, as values.\<close>

datatype error = Full | Empty | IndexError | TypeError | ValueError | ZeroDivisionError
  | OverflowError | LinAlgError

text \<open>
  An \<^verbatim>\<open>int\<close> operand of a float operation is converted to the nearest binary64 value.
  (Python raises \<^verbatim>\<open>OverflowError\<close> for an integer beyond the binary64 range; infinity
  stands for that here, and no statement below is about such integers.)
\<close>

definition of_int_double :: "int \<Rightarrow> double" where
  "of_int_double n = rnd (of_int n)"

text \<open>\<^verbatim>\<open>a / b\<close> on Python floats raises \<^verbatim>\<open>ZeroDivisionError\<close> for a zero divisor.\<close>

definition py_truediv :: "double \<Rightarrow> double \<Rightarrow> error + double" where
  "py_truediv a b = (if b = Finite 0 then Inl ZeroDivisionError else Inr (fdiv a b))"

text \<open>
  \<^verbatim>\<open>np.clip(v, lo, hi)\<close> is \<^verbatim>\<open>minimum(maximum(v, lo), hi)\<close>, and both propagate NaN.
\<close>

definition np_maximum :: "double \<Rightarrow> double \<Rightarrow> double" where
  "np_maximum a b = (if a = NaN \<or> b = NaN then NaN else if dle a b then b else a)"

definition np_minimum :: "double \<Rightarrow> double \<Rightarrow> double" where
  "np_minimum a b = (if a = NaN \<or> b = NaN then NaN else if dle a b then a else b)"

definition np_clip :: "double \<Rightarrow> double \<Rightarrow> double \<Rightarrow> double" where
  "np_clip v lo hi = np_minimum (np_maximum v lo) hi"

text \<open>
  \<^verbatim>\<open>int(round(v))\<close>: \<^verbatim>\<open>round\<close> raises \<^verbatim>\<open>ValueError\<close> for NaN and \<^verbatim>\<open>OverflowError\<close> for
  an infinity.
\<close>

definition int_round :: "double \<Rightarrow> error + int" where
  "int_round v =
     (case v of
        Finite r \<Rightarrow> Inr (py_round r)
      | NaN \<Rightarrow> Inl ValueError
      | _ \<Rightarrow> Inl OverflowError)"

text \<open>
  \<^verbatim>\<open>
  def map_amp_to_note(x, xmin, xmax, note_min=40, note_max=80):
      if xmax <= xmin:
          return note_min
      frac = (x - xmin) / (xmax - xmin)
      frac = np.clip(frac, 0.0, 1.0)
      note = note_min + frac * (note_max - note_min)
      return int(round(note))
  \<close>
  The live scripts call it with Python floats, for which \<^verbatim>\<open>/\<close> raises on a zero divisor;
  the prerecorded scripts call it with a numpy \<^verbatim>\<open>float64\<close> for \<^verbatim>\<open>x\<close>, for which it does
  not. The two agree wherever the divisor is not zero, and past the guard the difference
  of two binary64 values \<^verbatim>\<open>xmax > xmin\<close> is never zero.
\<close>

definition map_amp_to_note :: "double \<Rightarrow> double \<Rightarrow> double \<Rightarrow> int \<Rightarrow> int \<Rightarrow> error + int" where
  "map_amp_to_note x xmin xmax note_min note_max =
     (if dle xmax xmin then Inr note_min
      else
        case py_truediv (fsub x xmin) (fsub xmax xmin) of
          Inl e \<Rightarrow> Inl e
        | Inr quot \<Rightarrow>
            let frac = np_clip quot (Finite 0) (Finite 1);
                note = fadd (of_int_double note_min)
                         (fmul frac (of_int_double (note_max - note_min)))
            in int_round note)"

text \<open>
  \<^verbatim>\<open>
  def map_amp_to_cc(x, xmin, xmax):
      if xmax <= xmin:
          return 0
      frac = (x - xmin) / (xmax - xmin)
      frac = np.clip(frac, 0.0, 1.0)
      value = frac * 127
      return int(round(value))
  \<close>
\<close>

definition map_amp_to_cc :: "double \<Rightarrow> double \<Rightarrow> double \<Rightarrow> error + int" where
  "map_amp_to_cc x xmin xmax =
     (if dle xmax xmin then Inr 0
      else
        case py_truediv (fsub x xmin) (fsub xmax xmin) of
          Inl e \<Rightarrow> Inl e
        | Inr quot \<Rightarrow>
            let frac = np_clip quot (Finite 0) (Finite 1);
                v = fmul frac (of_int_double 127)
            in int_round v)"

text \<open>
  The two intermediate values of \<^const>\<open>map_amp_to_note\<close> past its guard, named so that
  statements can speak of them: the clamped fraction and the interpolated value that is
  handed to \<^verbatim>\<open>round\<close>.
\<close>

definition unit_frac :: "double \<Rightarrow> double \<Rightarrow> double \<Rightarrow> double" where
  "unit_frac x xmin xmax = np_clip (fdiv (fsub x xmin) (fsub xmax xmin)) (Finite 0) (Finite 1)"

definition note_value :: "double \<Rightarrow> double \<Rightarrow> double \<Rightarrow> int \<Rightarrow> int \<Rightarrow> double" where
  "note_value x xmin xmax note_min note_max =
     fadd (of_int_double note_min)
       (fmul (unit_frac x xmin xmax) (of_int_double (note_max - note_min)))"

text \<open>
  The mapper as the specification words it, over exact numbers: the same clamp and
  interpolation, rounded to the nearest integer with ties going up. It is compared with
  \<^const>\<open>map_amp_to_note\<close>.
\<close>

definition spec_to_note :: "real \<Rightarrow> real \<Rightarrow> real \<Rightarrow> int \<Rightarrow> int \<Rightarrow> int" where
  "spec_to_note x rmin rmax note_low note_high =
     (if rmax \<le> rmin then note_low
      else \<lfloor>of_int note_low
              + min (max ((x - rmin) / (rmax - rmin)) 0) 1 * of_int (note_high - note_low)
              + 1 / 2\<rfloor>)"

text \<open>
  Ranges and note ranges on which the mapper's arithmetic stays regular: the bounds are
  binary64 values, \<open>xmin < xmax\<close>, and their difference does not overflow; the notes and
  their difference are integers that binary64 represents exactly.
\<close>

definition good_range :: "real \<Rightarrow> real \<Rightarrow> bool" where
  "good_range xmin xmax =
     (is_double xmin \<and> is_double xmax \<and> xmin < xmax
      \<and> fsub (Finite xmax) (Finite xmin) \<noteq> PosInf)"

definition good_notes :: "int \<Rightarrow> int \<Rightarrow> bool" where
  "good_notes note_min note_max =
     (note_min \<le> note_max \<and> - (2 ^ 53) \<le> note_min \<and> note_max \<le> 2 ^ 53
      \<and> note_max - note_min \<le> 2 ^ 53)"

text \<open>The largest power of two among the binary64 values.\<close>

definition huge :: real where
  "huge = 2 powi 1023"

section \<open>The relay queue and the visualiser\<close>

text \<open>
  \<^verbatim>\<open>queue.Queue(maxsize)\<close> of the standard library, as far as the scripts use it: a FIFO
  that is full when \<^verbatim>\<open>maxsize > 0\<close> and it holds \<^verbatim>\<open>maxsize\<close> items. \<^verbatim>\<open>put_nowait\<close> raises
  \<^verbatim>\<open>Full\<close> on a full queue and \<^verbatim>\<open>get_nowait\<close> raises \<^verbatim>\<open>Empty\<close> on an empty one; neither
  blocks. Each call is atomic (the queue holds its lock).
\<close>

record py_queue =
  maxsize :: int
  items :: "double list"

definition Queue :: "int \<Rightarrow> py_queue" where
  "Queue m = \<lparr>maxsize = m, items = []\<rparr>"

definition qsize :: "py_queue \<Rightarrow> nat" where
  "qsize q = length (items q)"

definition queue_empty :: "py_queue \<Rightarrow> bool" where
  "queue_empty q = (items q = [])"

definition put_nowait :: "py_queue \<Rightarrow> double \<Rightarrow> error + py_queue" where
  "put_nowait q v =
     (if 0 < maxsize q \<and> maxsize q \<le> int (qsize q) then Inl Full
      else Inr (q\<lparr>items := items q @ [v]\<rparr>))"

definition get_nowait :: "py_queue \<Rightarrow> error + (double \<times> py_queue)" where
  "get_nowait q =
     (case items q of
        [] \<Rightarrow> Inl Empty
      | v # rest \<Rightarrow> Inr (v, q\<lparr>items := rest\<rparr>))"

text \<open>\<^verbatim>\<open>main\<close> of every script: \<^verbatim>\<open>vis_queue = queue.Queue(maxsize=2000)\<close>.\<close>

definition main_vis_queue :: py_queue where
  "main_vis_queue = Queue 2000"



text \<open>\<^verbatim>\<open>deque(maxlen=n).append(v)\<close>: a full deque drops its oldest entry.\<close>

definition deque_append :: "nat \<Rightarrow> double list \<Rightarrow> double \<Rightarrow> double list" where
  "deque_append maxlen buf v = (let b = buf @ [v] in drop (length b - maxlen) b)"

definition buffer_len :: nat where
  "buffer_len = 20000"

section \<open>The MIDI port, the filter and the stream list\<close>

text \<open>
  The messages \<^verbatim>\<open>MidiOut\<close> sends, and the lines the worker logs. The port is the list of
  the messages sent so far. \<^verbatim>\<open>mido.Message\<close> checks its arguments before anything is
  sent: a note, velocity, controller number or controller value outside \<open>0 .. 127\<close>, or a
  channel outside \<open>0 .. 15\<close>, raises \<^verbatim>\<open>ValueError\<close>. The command line accepts any
  integer for them.
  \<^verbatim>\<open>
  def note_on(self, note, velocity):
      self.outport.send(mido.Message("note_on", note=int(note), velocity=int(velocity)))
  def note_off(self, note):
      self.outport.send(mido.Message("note_off", note=int(note)))
  def send_cc(self, cc, value, channel=0):
      self.outport.send(mido.Message("control_change", control=int(cc),
                                     value=int(value), channel=channel))
  \<close>
\<close>

datatype midi_msg = NoteOn int int | NoteOff int | ControlChange int int int

datatype log_msg = PleaseWait | CalibrationComplete double double

definition data_byte :: "int \<Rightarrow> bool" where
  "data_byte v = (0 \<le> v \<and> v \<le> 127)"

definition note_on :: "midi_msg list \<Rightarrow> int \<Rightarrow> int \<Rightarrow> error + midi_msg list" where
  "note_on port note vel =
     (if data_byte note \<and> data_byte vel then Inr (port @ [NoteOn note vel]) else Inl ValueError)"

definition note_off :: "midi_msg list \<Rightarrow> int \<Rightarrow> error + midi_msg list" where
  "note_off port note =
     (if data_byte note then Inr (port @ [NoteOff note]) else Inl ValueError)"

definition send_cc :: "midi_msg list \<Rightarrow> int \<Rightarrow> int \<Rightarrow> int \<Rightarrow> error + midi_msg list" where
  "send_cc port control v chan =
     (if data_byte control \<and> data_byte v \<and> 0 \<le> chan \<and> chan \<le> 15
      then Inr (port @ [ControlChange control v chan]) else Inl ValueError)"

text \<open>
  \<^verbatim>\<open>RespFilter\<close>: the coefficients \<^verbatim>\<open>b\<close>, \<^verbatim>\<open>a\<close> of a second-order filter (three each) and
  its state \<^verbatim>\<open>z\<close> (two numbers).
\<close>

type_synonym coeffs = "double \<times> double \<times> double"

record RespFilter =
  flt_b :: coeffs
  flt_a :: coeffs
  flt_z :: "double \<times> double"

text \<open>
  \<^verbatim>\<open>scipy.signal\<close> is not part of the repository. What it computes is a parameter of the
  model: the coefficients \<^verbatim>\<open>butter\<close> designs for a normalised cutoff, and the result of
  \<^verbatim>\<open>lfilter_zi\<close>, which solves a linear system and raises (\<^verbatim>\<open>LinAlgError\<close>) when that
  system is singular, as it is for coefficients that a very small cutoff rounds to. What
  is modelled of the library is the argument check of \<^verbatim>\<open>butter\<close> for a digital filter,
  which raises \<^verbatim>\<open>ValueError\<close> unless \<open>0 < Wn < 1\<close> (the test is
  \<^verbatim>\<open>Wn <= 0 or Wn >= 1\<close>, so NaN passes it).
\<close>

record scipy_signal =
  design :: "double \<Rightarrow> coeffs \<times> coeffs"
  lfilter_zi :: "coeffs \<Rightarrow> coeffs \<Rightarrow> error + (double \<times> double)"

definition butter :: "scipy_signal \<Rightarrow> double \<Rightarrow> error + (coeffs \<times> coeffs)" where
  "butter lib Wn =
     (if dle Wn (Finite 0) \<or> dle (Finite 1) Wn then Inl ValueError else Inr (design lib Wn))"

text \<open>
  \<^verbatim>\<open>
  def __init__(self, fs, cutoff=1.0):
      nyq = 0.5 * fs
      norm = cutoff / nyq
      self.b, self.a = butter(2, norm, btype="low")
      zi = lfilter_zi(self.b, self.a)
      self.z = zi * 0.0
  \<close>
  \<^verbatim>\<open>fs\<close> and \<^verbatim>\<open>cutoff\<close> are Python floats (\<^verbatim>\<open>type=float\<close> on the command line, and
  \<^verbatim>\<open>info.nominal_srate() or 100.0\<close>), so the division raises on a zero \<^verbatim>\<open>nyq\<close>.
\<close>

definition RespFilter_init :: "scipy_signal \<Rightarrow> double \<Rightarrow> double \<Rightarrow> error + RespFilter" where
  "RespFilter_init lib fs cutoff =
     (let nyq = fmul (Finite (1 / 2)) fs
      in case py_truediv cutoff nyq of
           Inl e \<Rightarrow> Inl e
         | Inr Wn \<Rightarrow>
             (case butter lib Wn of
                Inl e \<Rightarrow> Inl e
              | Inr (b, a) \<Rightarrow>
                  (case lfilter_zi lib b a of
                     Inl e \<Rightarrow> Inl e
                   | Inr zi \<Rightarrow>
                       Inr \<lparr>flt_b = b, flt_a = a,
                            flt_z = (fmul (fst zi) (Finite 0), fmul (snd zi) (Finite 0))\<rparr>)))"

text \<open>
  \<^verbatim>\<open>add\<close>: one step of \<^verbatim>\<open>lfilter\<close> (transposed direct form II) on a single sample, with
  the operations in the order the library performs them. \<^verbatim>\<open>lfilter\<close> first divides the
  coefficients by \<^verbatim>\<open>a[0]\<close>, which is 1 for what \<^verbatim>\<open>butter\<close> returns.
  \<^verbatim>\<open>
  def add(self, x):
      y, self.z = lfilter(self.b, self.a, [x], zi=self.z)
      return float(y[0])
  \<close>
\<close>

definition add :: "RespFilter \<Rightarrow> double \<Rightarrow> double \<times> RespFilter" where
  "add f x =
     (case (flt_b f, flt_a f, flt_z f) of
        ((b0, b1, b2), (a0, a1, a2), (z0, z1)) \<Rightarrow>
          let y = fadd z0 (fmul b0 x)
          in (y, f\<lparr>flt_z := (fsub (fadd z1 (fmul x b1)) (fmul y a1),
                               fsub (fmul x b2) (fmul y a2))\<rparr>))"

text \<open>
  \<^verbatim>\<open>xs[i]\<close> on a Python list: positions \<open>0 .. len - 1\<close> read forwards, positions
  \<open>-len .. -1\<close> read from the end, anything else raises \<^verbatim>\<open>IndexError\<close>.
\<close>

definition py_index :: "'a list \<Rightarrow> int \<Rightarrow> error + 'a" where
  "py_index xs i =
     (if 0 \<le> i \<and> i < int (length xs) then Inr (xs ! nat i)
      else if i < 0 \<and> - int (length xs) \<le> i then Inr (xs ! nat (int (length xs) + i))
      else Inl IndexError)"

text \<open>
  \<^verbatim>\<open>
  if not streams:
      logging.error("No OpenSignals streams found.")
      return
  info = streams[min(args.stream_index, len(streams)-1)]
  \<close>
  \<open>None\<close> is the early return.
\<close>

definition select_stream :: "'a list \<Rightarrow> int \<Rightarrow> (error + 'a) option" where
  "select_stream streams stream_index =
     (if streams = [] then None
      else Some (py_index streams (min stream_index (int (length streams) - 1))))"

section \<open>The bridge workers\<close>

text \<open>
  The command-line arguments the loops read, and the local variables of
  \<^verbatim>\<open>bridge_worker\<close> together with the objects it shares: the relay queue, the
  visualiser's buffer, the messages the port has received and the lines logged.
\<close>

record args =
  note_low :: int
  note_high :: int
  velocity :: int
  channel :: int
  cc :: int
  channel_midi :: int

record bridge_state =
  calibrating :: bool
  amp_min :: "double option"
  amp_max :: "double option"
  prev_note :: "int option"
  calibration_msg_shown :: bool
  filt :: RespFilter
  vis_queue :: py_queue
  vis_buffer :: "double list"
  midi :: "midi_msg list"
  logged :: "log_msg list"

text \<open>
  How far an activity got: through without an exception, with its state, or stopped by an
  exception that nothing catches (the state is the one the exception leaves).
\<close>

datatype outcome = Normal bridge_state | Raised error bridge_state

fun state_of :: "outcome \<Rightarrow> bridge_state" where
  "state_of (Normal s) = s"
| "state_of (Raised e s) = s"

text \<open>
  \<^verbatim>\<open>RespVisualiser.update\<close>, run by the GUI timer in the main thread:
  \<^verbatim>\<open>
  while not self.queue.empty():
      value = self.queue.get_nowait()
      self.buffer.append(value)
  \<close>
\<close>

function update :: "bridge_state \<Rightarrow> bridge_state" where
  "update s =
     (if queue_empty (vis_queue s) then s
      else case get_nowait (vis_queue s) of
             Inl e \<Rightarrow> s
           | Inr (v, q') \<Rightarrow>
               update (s\<lparr>vis_queue := q',
                         vis_buffer := deque_append buffer_len (vis_buffer s) v\<rparr>))"
  by pat_completeness auto
termination
  by (relation "measure (\<lambda>s. length (items (vis_queue s)))")
     (auto simp: get_nowait_def split: list.splits)

declare update.simps [simp del]

text \<open>
  The consumer runs beside the worker. A schedule \<open>vis\<close> says, for the worker's
  \<open>i\<close>-th loop pass, whether the timer fired before it.
\<close>

definition vis_tick :: "(nat \<Rightarrow> bool) \<Rightarrow> nat \<Rightarrow> bridge_state \<Rightarrow> bridge_state" where
  "vis_tick vis i s = (if vis i then update s else s)"

subsection \<open>The note state machine\<close>

text \<open>
  The decision of the note scripts, apart from the port: which messages a mapped note
  calls for, and the value \<^verbatim>\<open>prev_note\<close> takes.
  \<^verbatim>\<open>
  if prev_note is None:
      ... note_on(note, args.velocity) ...
  elif note != prev_note:
      midi.note_off(prev_note)
      midi.note_on(note, args.velocity)
      prev_note = note
  \<close>
\<close>

definition note_step :: "int \<Rightarrow> int \<Rightarrow> int option \<Rightarrow> midi_msg list \<times> int option" where
  "note_step vel note prev =
     (case prev of
        None \<Rightarrow> ([NoteOn note vel], Some note)
      | Some p \<Rightarrow>
          if note \<noteq> p then ([NoteOff p, NoteOn note vel], Some note)
          else ([], Some p))"

text \<open>The decision driven by a sequence of mapped notes.\<close>

fun note_run :: "int \<Rightarrow> int list \<Rightarrow> int option \<Rightarrow> midi_msg list \<times> int option" where
  "note_run vel [] prev = ([], prev)"
| "note_run vel (n # ns) prev =
     (case note_step vel n prev of
        (ev, prev') \<Rightarrow> (case note_run vel ns prev' of (evs, p) \<Rightarrow> (ev @ evs, p)))"

text \<open>
  The same lines with the port, whose sends can raise. The live script assigns
  \<^verbatim>\<open>prev_note\<close> before the first \<^verbatim>\<open>note_on\<close>, so a send that raises leaves \<^verbatim>\<open>prev_note\<close>
  set with nothing sent:
  \<^verbatim>\<open>
  if prev_note is None:
      prev_note = note
      midi.note_on(note, args.velocity)
  elif note != prev_note:
      midi.note_off(prev_note)
      midi.note_on(note, args.velocity)
      prev_note = note
  \<close>
\<close>

definition live_note_machine :: "args \<Rightarrow> int \<Rightarrow> bridge_state \<Rightarrow> outcome" where
  "live_note_machine A note s =
     (case prev_note s of
        None \<Rightarrow>
          (case note_on (midi s) note (velocity A) of
             Inl e \<Rightarrow> Raised e (s\<lparr>prev_note := Some note\<rparr>)
           | Inr port \<Rightarrow> Normal (s\<lparr>prev_note := Some note, midi := port\<rparr>))
      | Some p \<Rightarrow>
          if note \<noteq> p then
            (case note_off (midi s) p of
               Inl e \<Rightarrow> Raised e s
             | Inr port \<Rightarrow>
                 (case note_on port note (velocity A) of
                    Inl e \<Rightarrow> Raised e (s\<lparr>midi := port\<rparr>)
                  | Inr port' \<Rightarrow> Normal (s\<lparr>midi := port', prev_note := Some note\<rparr>)))
          else Normal s)"

text \<open>
  The prerecorded script sends first:
  \<^verbatim>\<open>
  if prev_note is None:
      midi.note_on(note, args.velocity)
      prev_note = note
  elif note != prev_note:
      midi.note_off(prev_note)
      midi.note_on(note, args.velocity)
      prev_note = note
  \<close>
\<close>

definition prerec_note_machine :: "args \<Rightarrow> int \<Rightarrow> bridge_state \<Rightarrow> outcome" where
  "prerec_note_machine A note s =
     (case prev_note s of
        None \<Rightarrow>
          (case note_on (midi s) note (velocity A) of
             Inl e \<Rightarrow> Raised e s
           | Inr port \<Rightarrow> Normal (s\<lparr>midi := port, prev_note := Some note\<rparr>))
      | Some p \<Rightarrow>
          if note \<noteq> p then
            (case note_off (midi s) p of
               Inl e \<Rightarrow> Raised e s
             | Inr port \<Rightarrow>
                 (case note_on port note (velocity A) of
                    Inl e \<Rightarrow> Raised e (s\<lparr>midi := port\<rparr>)
                  | Inr port' \<Rightarrow> Normal (s\<lparr>midi := port', prev_note := Some note\<rparr>)))
          else Normal s)"

text \<open>
  \<^verbatim>\<open>note = map_amp_to_note(filtered, amp_min, amp_max, note_min=args.note_low,
  note_max=args.note_high)\<close>; comparing with \<^verbatim>\<open>None\<close> raises \<^verbatim>\<open>TypeError\<close>.
\<close>

definition mapped_note :: "args \<Rightarrow> double \<Rightarrow> bridge_state \<Rightarrow> error + int" where
  "mapped_note A filtered s =
     (case amp_min s of
        None \<Rightarrow> Inl TypeError
      | Some lo \<Rightarrow>
          (case amp_max s of
             None \<Rightarrow> Inl TypeError
           | Some hi \<Rightarrow> map_amp_to_note filtered lo hi (note_low A) (note_high A)))"

definition live_play_note :: "args \<Rightarrow> double \<Rightarrow> bridge_state \<Rightarrow> outcome" where
  "live_play_note A filtered s =
     (case mapped_note A filtered s of
        Inl e \<Rightarrow> Raised e s
      | Inr note \<Rightarrow> live_note_machine A note s)"

definition prerec_play_note :: "args \<Rightarrow> double \<Rightarrow> bridge_state \<Rightarrow> outcome" where
  "prerec_play_note A filtered s =
     (case mapped_note A filtered s of
        Inl e \<Rightarrow> Raised e s
      | Inr note \<Rightarrow> prerec_note_machine A note s)"

text \<open>
  \<^verbatim>\<open>
  cc_value = map_amp_to_cc(filtered, amp_min, amp_max)
  midi.send_cc(args.cc, cc_value, channel=args.channel_midi)
  \<close>
\<close>

definition mod_send :: "args \<Rightarrow> double \<Rightarrow> bridge_state \<Rightarrow> outcome" where
  "mod_send A filtered s =
     (case amp_min s of
        None \<Rightarrow> Raised TypeError s
      | Some lo \<Rightarrow>
          (case amp_max s of
             None \<Rightarrow> Raised TypeError s
           | Some hi \<Rightarrow>
               (case map_amp_to_cc filtered lo hi of
                  Inl e \<Rightarrow> Raised e s
                | Inr cc_value \<Rightarrow>
                    (case send_cc (midi s) (cc A) cc_value (channel_midi A) of
                       Inl e \<Rightarrow> Raised e s
                     | Inr port \<Rightarrow> Normal (s\<lparr>midi := port\<rparr>)))))"

subsection \<open>Live calibration\<close>

text \<open>
  \<^verbatim>\<open>calibration_duration = 30.0\<close>. The builtins \<^verbatim>\<open>min(a, b)\<close> and \<^verbatim>\<open>max(a, b)\<close> return
  \<^verbatim>\<open>b\<close> when \<^verbatim>\<open>b < a\<close> (when \<^verbatim>\<open>b > a\<close>) and \<^verbatim>\<open>a\<close> otherwise.
\<close>

definition calibration_duration :: double where
  "calibration_duration = Finite 30"

definition py_min :: "double \<Rightarrow> double \<Rightarrow> double" where
  "py_min a b = (if dlt b a then b else a)"

definition py_max :: "double \<Rightarrow> double \<Rightarrow> double" where
  "py_max a b = (if dlt a b then b else a)"

text \<open>
  The body of \<^verbatim>\<open>if calibrating:\<close>, the same in both live scripts but for the reset of
  \<^verbatim>\<open>prev_note\<close>, which only the note script has (\<open>reset\<close>):
  \<^verbatim>\<open>
  if not calibration_msg_shown:
      logging.info("PLEASE WAIT: ...")
      calibration_msg_shown = True
  if amp_min is None:
      amp_min = filtered
      amp_max = filtered
  else:
      amp_min = min(amp_min, filtered)
      amp_max = max(amp_max, filtered)
  if now - start_time >= calibration_duration:
      calibrating = False
      prev_note = None
      logging.info("Calibration complete: ...")
  \<close>
\<close>

definition close_window ::
  "bool \<Rightarrow> double \<Rightarrow> double \<Rightarrow> double \<Rightarrow> double \<Rightarrow> bridge_state \<Rightarrow> bridge_state" where
  "close_window reset start_time now lo hi s =
     (if dle calibration_duration (fsub now start_time)
      then s\<lparr>calibrating := False,
              prev_note := (if reset then None else prev_note s),
              logged := logged s @ [CalibrationComplete lo hi]\<rparr>
      else s)"

definition calibrate :: "bool \<Rightarrow> double \<Rightarrow> double \<Rightarrow> double \<Rightarrow> bridge_state \<Rightarrow> outcome" where
  "calibrate reset start_time now filtered s =
     (let s1 = (if \<not> calibration_msg_shown s
                then s\<lparr>logged := logged s @ [PleaseWait], calibration_msg_shown := True\<rparr>
                else s)
      in case amp_min s1 of
           None \<Rightarrow>
             Normal (close_window reset start_time now filtered filtered
                       (s1\<lparr>amp_min := Some filtered, amp_max := Some filtered\<rparr>))
         | Some lo \<Rightarrow>
             (case amp_max s1 of
                None \<Rightarrow> Raised TypeError (s1\<lparr>amp_min := Some (py_min lo filtered)\<rparr>)
              | Some hi \<Rightarrow>
                  Normal (close_window reset start_time now (py_min lo filtered)
                            (py_max hi filtered)
                            (s1\<lparr>amp_min := Some (py_min lo filtered),
                                 amp_max := Some (py_max hi filtered)\<rparr>))))"

subsection \<open>The live loops\<close>

text \<open>
  One pass through \<^verbatim>\<open>while True:\<close>. The poll \<^verbatim>\<open>inlet.pull_sample(timeout=0.0)\<close> gives
  nothing, or a sample; the clock \<^verbatim>\<open>time.time()\<close> read for that sample comes with it.
  The note script calibrates, then relays, then plays:
  \<^verbatim>\<open>
  sample, _ = inlet.pull_sample(timeout=0.0)
  if sample is None:
      time.sleep(0.001)
      continue
  raw = float(sample[args.channel])
  filtered = filt.add(raw)
  now = time.time()
  if calibrating:
      ...
  vis_queue.put_nowait(filtered)
  if not calibrating:
      note = map_amp_to_note(...)
      ...
  \<close>
\<close>

type_synonym poll = "(double list \<times> double) option"

definition live_play_iter :: "args \<Rightarrow> double \<Rightarrow> poll \<Rightarrow> bridge_state \<Rightarrow> outcome" where
  "live_play_iter A start_time p s =
     (case p of
        None \<Rightarrow> Normal s
      | Some (sample, now) \<Rightarrow>
          (case py_index sample (channel A) of
             Inl e \<Rightarrow> Raised e s
           | Inr raw \<Rightarrow>
               (case add (filt s) raw of
                  (filtered, f') \<Rightarrow>
                    (case (if calibrating s
                           then calibrate True start_time now filtered (s\<lparr>filt := f'\<rparr>)
                           else Normal (s\<lparr>filt := f'\<rparr>)) of
                       Raised e s1 \<Rightarrow> Raised e s1
                     | Normal s1 \<Rightarrow>
                         (case put_nowait (vis_queue s1) filtered of
                            Inl e \<Rightarrow> Raised e s1
                          | Inr q' \<Rightarrow>
                              if \<not> calibrating s1
                              then live_play_note A filtered (s1\<lparr>vis_queue := q'\<rparr>)
                              else Normal (s1\<lparr>vis_queue := q'\<rparr>))))))"

text \<open>
  The controller script relays first:
  \<^verbatim>\<open>
  raw = float(sample[args.channel])
  filtered = filt.add(raw)
  vis_queue.put_nowait(filtered)
  now = time.time()
  if calibrating:
      ...
  else:
      cc_value = map_amp_to_cc(filtered, amp_min, amp_max)
      midi.send_cc(args.cc, cc_value, channel=args.channel_midi)
  \<close>
\<close>

definition live_mod_iter :: "args \<Rightarrow> double \<Rightarrow> poll \<Rightarrow> bridge_state \<Rightarrow> outcome" where
  "live_mod_iter A start_time p s =
     (case p of
        None \<Rightarrow> Normal s
      | Some (sample, now) \<Rightarrow>
          (case py_index sample (channel A) of
             Inl e \<Rightarrow> Raised e s
           | Inr raw \<Rightarrow>
               (case add (filt s) raw of
                  (filtered, f') \<Rightarrow>
                    (case put_nowait (vis_queue s) filtered of
                       Inl e \<Rightarrow> Raised e (s\<lparr>filt := f'\<rparr>)
                     | Inr q' \<Rightarrow>
                         if calibrating s
                         then calibrate False start_time now filtered
                                (s\<lparr>filt := f', vis_queue := q'\<rparr>)
                         else mod_send A filtered (s\<lparr>filt := f', vis_queue := q'\<rparr>)))))"

text \<open>
  The loop over the polls the worker makes before it is stopped; the visualiser may run
  before each pass. An exception leaves the loop and the function.
\<close>

fun live_play_loop ::
  "args \<Rightarrow> double \<Rightarrow> (nat \<Rightarrow> bool) \<Rightarrow> nat \<Rightarrow> poll list \<Rightarrow> bridge_state \<Rightarrow> outcome" where
  "live_play_loop A start_time vis i [] s = Normal s"
| "live_play_loop A start_time vis i (p # ps) s =
     (case live_play_iter A start_time p (vis_tick vis i s) of
        Raised e s' \<Rightarrow> Raised e s'
      | Normal s' \<Rightarrow> live_play_loop A start_time vis (Suc i) ps s')"

fun live_mod_loop ::
  "args \<Rightarrow> double \<Rightarrow> (nat \<Rightarrow> bool) \<Rightarrow> nat \<Rightarrow> poll list \<Rightarrow> bridge_state \<Rightarrow> outcome" where
  "live_mod_loop A start_time vis i [] s = Normal s"
| "live_mod_loop A start_time vis i (p # ps) s =
     (case live_mod_iter A start_time p (vis_tick vis i s) of
        Raised e s' \<Rightarrow> Raised e s'
      | Normal s' \<Rightarrow> live_mod_loop A start_time vis (Suc i) ps s')"

text \<open>
  The variables of the live workers before the loop, with the filter already built and the
  port freshly opened; the queue comes from \<^verbatim>\<open>main\<close>.
\<close>

definition live_init :: "RespFilter \<Rightarrow> py_queue \<Rightarrow> bridge_state" where
  "live_init f q =
     \<lparr>calibrating = True, amp_min = None, amp_max = None, prev_note = None,
      calibration_msg_shown = False, filt = f, vis_queue = q, vis_buffer = [],
      midi = [], logged = []\<rparr>"

text \<open>
  The workers run in a daemon thread. \<^verbatim>\<open>KeyboardInterrupt\<close> is delivered to the main
  thread only, where \<^verbatim>\<open>signal_handler\<close> calls \<^verbatim>\<open>sys.exit(0)\<close>; so the clause
  \<^verbatim>\<open>except KeyboardInterrupt:\<close> of the worker (which only logs) never runs, and the worker
  has no clause for any other exception and no \<^verbatim>\<open>finally\<close>. A live worker ends by an
  exception of its own or because the process exits, which stops it wherever it is.
\<close>

definition live_play_worker ::
  "args \<Rightarrow> double \<Rightarrow> (nat \<Rightarrow> bool) \<Rightarrow> poll list \<Rightarrow> RespFilter \<Rightarrow> py_queue \<Rightarrow> outcome" where
  "live_play_worker A start_time vis polls f q =
     live_play_loop A start_time vis 0 polls (live_init f q)"

definition live_mod_worker ::
  "args \<Rightarrow> double \<Rightarrow> (nat \<Rightarrow> bool) \<Rightarrow> poll list \<Rightarrow> RespFilter \<Rightarrow> py_queue \<Rightarrow> outcome" where
  "live_mod_worker A start_time vis polls f q =
     live_mod_loop A start_time vis 0 polls (live_init f q)"

text \<open>
  What the port has received when the process exits during a run: some prefix of the
  messages the run would send. Every send is one message, so every place at which the
  worker can be stopped leaves such a prefix.
\<close>

definition cut_after :: "nat \<Rightarrow> outcome \<Rightarrow> midi_msg list" where
  "cut_after k r = take k (midi (state_of r))"

subsection \<open>The prerecorded workers\<close>

text \<open>\<^verbatim>\<open>[filt.add(float(x)) for x in data]\<close>, the filter's state threaded through.\<close>

fun filter_all :: "RespFilter \<Rightarrow> double list \<Rightarrow> double list \<times> RespFilter" where
  "filter_all f [] = ([], f)"
| "filter_all f (x # xs) =
     (case add f x of
        (y, f') \<Rightarrow> (case filter_all f' xs of (ys, f'') \<Rightarrow> (y # ys, f'')))"

text \<open>
  \<^verbatim>\<open>np.min\<close> and \<^verbatim>\<open>np.max\<close> raise \<^verbatim>\<open>ValueError\<close> on an empty array and propagate NaN.
\<close>

definition np_min :: "double list \<Rightarrow> error + double" where
  "np_min xs = (case xs of [] \<Rightarrow> Inl ValueError | x # rest \<Rightarrow> Inr (fold (\<lambda>v acc. np_minimum acc v) rest x))"

definition np_max :: "double list \<Rightarrow> error + double" where
  "np_max xs = (case xs of [] \<Rightarrow> Inl ValueError | x # rest \<Rightarrow> Inr (fold (\<lambda>v acc. np_maximum acc v) rest x))"

text \<open>
  \<^verbatim>\<open>time.sleep(dt)\<close> raises \<^verbatim>\<open>ValueError\<close> for NaN and for a negative length, and
  \<^verbatim>\<open>OverflowError\<close> when the length in nanoseconds does not fit 64 bits.
\<close>

definition time_sleep :: "double \<Rightarrow> error option" where
  "time_sleep dt =
     (if dt = NaN then Some ValueError
      else
        let ns = fmul dt (Finite (10 ^ 9))
        in if dlt ns (Finite (- (2 ^ 63))) \<or> dle (Finite (2 ^ 63)) ns then Some OverflowError
           else if dlt dt (Finite 0) then Some ValueError
           else None)"

text \<open>
  One pass of the playback loops:
  \<^verbatim>\<open>
  for filtered in filtered_data:
      vis_queue.put_nowait(filtered)
      note = map_amp_to_note(...)          # cc_value = map_amp_to_cc(...)
      ...                                  # midi.send_cc(...)
      time.sleep(dt)
  \<close>
\<close>

definition prerec_play_iter :: "args \<Rightarrow> double \<Rightarrow> double \<Rightarrow> bridge_state \<Rightarrow> outcome" where
  "prerec_play_iter A dt filtered s =
     (case put_nowait (vis_queue s) filtered of
        Inl e \<Rightarrow> Raised e s
      | Inr q' \<Rightarrow>
          (case prerec_play_note A filtered (s\<lparr>vis_queue := q'\<rparr>) of
             Raised e s' \<Rightarrow> Raised e s'
           | Normal s' \<Rightarrow>
               (case time_sleep dt of Some e \<Rightarrow> Raised e s' | None \<Rightarrow> Normal s')))"

definition prerec_mod_iter :: "args \<Rightarrow> double \<Rightarrow> double \<Rightarrow> bridge_state \<Rightarrow> outcome" where
  "prerec_mod_iter A dt filtered s =
     (case put_nowait (vis_queue s) filtered of
        Inl e \<Rightarrow> Raised e s
      | Inr q' \<Rightarrow>
          (case mod_send A filtered (s\<lparr>vis_queue := q'\<rparr>) of
             Raised e s' \<Rightarrow> Raised e s'
           | Normal s' \<Rightarrow>
               (case time_sleep dt of Some e \<Rightarrow> Raised e s' | None \<Rightarrow> Normal s')))"

fun prerec_play_loop ::
  "args \<Rightarrow> double \<Rightarrow> (nat \<Rightarrow> bool) \<Rightarrow> nat \<Rightarrow> double list \<Rightarrow> bridge_state \<Rightarrow> outcome" where
  "prerec_play_loop A dt vis i [] s = Normal s"
| "prerec_play_loop A dt vis i (x # xs) s =
     (case prerec_play_iter A dt x (vis_tick vis i s) of
        Raised e s' \<Rightarrow> Raised e s'
      | Normal s' \<Rightarrow> prerec_play_loop A dt vis (Suc i) xs s')"

fun prerec_mod_loop ::
  "args \<Rightarrow> double \<Rightarrow> (nat \<Rightarrow> bool) \<Rightarrow> nat \<Rightarrow> double list \<Rightarrow> bridge_state \<Rightarrow> outcome" where
  "prerec_mod_loop A dt vis i [] s = Normal s"
| "prerec_mod_loop A dt vis i (x # xs) s =
     (case prerec_mod_iter A dt x (vis_tick vis i s) of
        Raised e s' \<Rightarrow> Raised e s'
      | Normal s' \<Rightarrow> prerec_mod_loop A dt vis (Suc i) xs s')"

text \<open>
  The calibration over the whole recording, the same in both prerecorded scripts. \<open>data\<close>
  is the column \<^verbatim>\<open>np.loadtxt\<close> read; a file with a single data row gives a
  zero-dimensional array, and iterating over it raises \<^verbatim>\<open>TypeError\<close>.
  \<^verbatim>\<open>
  logging.info("PLEASE WAIT: Calibrating amplitude range of RESP signal...")
  filtered_data = np.array([filt.add(float(x)) for x in data])
  amp_min = float(np.min(filtered_data))
  amp_max = float(np.max(filtered_data))
  logging.info("Calibration complete: ...")
  prev_note = None
  \<close>
\<close>

definition prerec_calibrate ::
  "double list \<Rightarrow> RespFilter \<Rightarrow> py_queue \<Rightarrow> (error + double list) \<times> bridge_state" where
  "prerec_calibrate data f q =
     (let s0 = \<lparr>calibrating = False, amp_min = None, amp_max = None, prev_note = None,
                calibration_msg_shown = True, filt = f, vis_queue = q, vis_buffer = [],
                midi = [], logged = [PleaseWait]\<rparr>
      in if length data = 1 then (Inl TypeError, s0)
         else
           (case filter_all f data of
              (filtered_data, f') \<Rightarrow>
                (case np_min filtered_data of
                   Inl e \<Rightarrow> (Inl e, s0\<lparr>filt := f'\<rparr>)
                 | Inr lo \<Rightarrow>
                     (case np_max filtered_data of
                        Inl e \<Rightarrow> (Inl e, s0\<lparr>filt := f'\<rparr>)
                      | Inr hi \<Rightarrow>
                          (Inr filtered_data,
                           s0\<lparr>filt := f', amp_min := Some lo, amp_max := Some hi,
                              logged := [PleaseWait, CalibrationComplete lo hi]\<rparr>)))))"

text \<open>
  \<^verbatim>\<open>bridge_worker\<close> of the prerecorded scripts from the calibration on, with
  \<^verbatim>\<open>dt = 1.0 / fs\<close> computed, the filter built and the port open. The loop ends when the
  data is exhausted; its \<^verbatim>\<open>except KeyboardInterrupt:\<close> never runs either.
\<close>

definition prerec_play_worker ::
  "args \<Rightarrow> double \<Rightarrow> (nat \<Rightarrow> bool) \<Rightarrow> double list \<Rightarrow> RespFilter \<Rightarrow> py_queue \<Rightarrow> outcome" where
  "prerec_play_worker A dt vis data f q =
     (case prerec_calibrate data f q of
        (Inl e, s) \<Rightarrow> Raised e s
      | (Inr filtered_data, s) \<Rightarrow>
          prerec_play_loop A dt vis 0 filtered_data s)"

definition prerec_mod_worker ::
  "args \<Rightarrow> double \<Rightarrow> (nat \<Rightarrow> bool) \<Rightarrow> double list \<Rightarrow> RespFilter \<Rightarrow> py_queue \<Rightarrow> outcome" where
  "prerec_mod_worker A dt vis data f q =
     (case prerec_calibrate data f q of
        (Inl e, s) \<Rightarrow> Raised e s
      | (Inr filtered_data, s) \<Rightarrow>
          prerec_mod_loop A dt vis 0 filtered_data s)"

subsection \<open>Predicates and concrete inputs for the statements\<close>

text \<open>
  A message list in which every note_on but possibly the last is followed at once by the
  note_off of the same note, and nothing else occurs; and the note a receiving device
  holds after a message list.
\<close>

fun alternating :: "midi_msg list \<Rightarrow> bool" where
  "alternating [] = True"
| "alternating [NoteOn n v] = True"
| "alternating (NoteOn n v # NoteOff m # rest) = (n = m \<and> alternating rest)"
| "alternating ms = False"


text \<open>The note of the last message, when that message is a note_on.\<close>

definition last_on :: "midi_msg list \<Rightarrow> int option" where
  "last_on ms =
     (if ms = [] then None
      else case last ms of NoteOn n v \<Rightarrow> Some n | _ \<Rightarrow> None)"

text \<open>
  What the note workers maintain between passes, and what an exception leaves.
\<close>

definition note_inv :: "bridge_state \<Rightarrow> bool" where
  "note_inv s =
     (alternating (midi s) \<and> last_on (midi s) = prev_note s
      \<and> (if calibrating s then prev_note s = None else True))"


text \<open>
  A poll falls inside the calibration window when it brings no sample, or when the clock
  read for its sample is less than \<^const>\<open>calibration_duration\<close> after the start.
\<close>

definition window_open :: "double \<Rightarrow> poll \<Rightarrow> bool" where
  "window_open start_time p =
     (case p of
        None \<Rightarrow> True
      | Some (sample, now) \<Rightarrow> dlt (fsub now start_time) calibration_duration)"

text \<open>
  The calibrator's update of a bound; the two bounds are set together; the relay queue of
  \<^verbatim>\<open>main\<close> when it is full.
\<close>

definition fold_amp :: "(double \<Rightarrow> double \<Rightarrow> double) \<Rightarrow> double option \<Rightarrow> double \<Rightarrow> double" where
  "fold_amp f cur y = (case cur of None \<Rightarrow> y | Some a \<Rightarrow> f a y)"

definition amp_consistent :: "bridge_state \<Rightarrow> bool" where
  "amp_consistent s = ((amp_min s = None) = (amp_max s = None))"


text \<open>
  For concrete runs: a filter that passes every sample through unchanged, the default
  command-line arguments, and an instance of the library whose design is that filter and
  whose \<^verbatim>\<open>lfilter_zi\<close> succeeds.
\<close>

definition identity_filter :: RespFilter where
  "identity_filter =
     \<lparr>flt_b = (Finite 1, Finite 0, Finite 0), flt_a = (Finite 1, Finite 0, Finite 0),
      flt_z = (Finite 0, Finite 0)\<rparr>"

definition demo_args :: args where
  "demo_args = \<lparr>note_low = 40, note_high = 80, velocity = 100, channel = 1, cc = 115,
                 channel_midi = 0\<rparr>"

definition stub_signal :: scipy_signal where
  "stub_signal =
     \<lparr>design = (\<lambda>Wn. ((Finite 1, Finite 0, Finite 0), (Finite 1, Finite 0, Finite 0))),
      lfilter_zi = (\<lambda>b a. Inr (Finite 0, Finite 0))\<rparr>"

section \<open>Lemmas on rounding\<close>

lemma bexp_up_spec:
  "e \<le> 1023 \<Longrightarrow> 2 powi e \<le> a \<Longrightarrow>
     e \<le> bexp_up e a \<and> bexp_up e a \<le> 1023 \<and> 2 powi (bexp_up e a) \<le> a
     \<and> (bexp_up e a < 1023 \<longrightarrow> a < 2 powi (bexp_up e a + 1))"
proof (induction e a rule: bexp_up.induct)
  case (1 e a)
  show ?case
  proof (cases "e < 1023 \<and> 2 powi (e + 1) \<le> a")
    case True
    then have "e + 1 \<le> 1023" "2 powi (e + 1) \<le> a" by simp_all
    from "1.IH" [OF True this] show ?thesis using True by (simp add: bexp_up.simps [of e a])
  next
    case False
    then show ?thesis using "1.prems" by (auto simp: bexp_up.simps [of e a])
  qed
qed

lemma bexp_down_spec:
  "- 1022 \<le> e \<Longrightarrow> a < 2 powi (e + 1) \<Longrightarrow>
     - 1022 \<le> bexp_down e a \<and> bexp_down e a \<le> e \<and> a < 2 powi (bexp_down e a + 1)
     \<and> (- 1022 < bexp_down e a \<longrightarrow> 2 powi (bexp_down e a) \<le> a)"
proof (induction e a rule: bexp_down.induct)
  case (1 e a)
  show ?case
  proof (cases "- 1022 < e \<and> a < 2 powi e")
    case True
    then have "- 1022 \<le> e - 1" "a < 2 powi (e - 1 + 1)" by simp_all
    from "1.IH" [OF True this] show ?thesis using True by (simp add: bexp_down.simps [of e a])
  next
    case False
    then show ?thesis using "1.prems" by (auto simp: bexp_down.simps [of e a])
  qed
qed

lemma bexp_range: "- 1022 \<le> bexp a \<and> bexp a \<le> 1023"
proof (cases "1 \<le> a")
  case True
  then have "2 powi 0 \<le> a" by simp
  from bexp_up_spec [OF _ this] show ?thesis using True by (simp add: bexp_def)
next
  case False
  then have "a < 2 powi (0 + 1)" by simp
  from bexp_down_spec [OF _ this] show ?thesis using False by (simp add: bexp_def)
qed
lemma py_round_of_int: "py_round (of_int n) = n"
  by (simp add: py_round_def)

lemma py_round_lower: "\<lfloor>v\<rfloor> \<le> py_round v"
  by (simp add: py_round_def Let_def)

lemma py_round_upper: "py_round v \<le> \<lfloor>v\<rfloor> + 1"
  by (simp add: py_round_def Let_def)

lemma py_round_ge: "of_int a \<le> v \<Longrightarrow> a \<le> py_round v"
proof -
  assume "of_int a \<le> v"
  then have "a \<le> \<lfloor>v\<rfloor>" by (simp add: le_floor_iff)
  then show ?thesis using py_round_lower [of v] by linarith
qed

lemma py_round_le: "v \<le> of_int b \<Longrightarrow> py_round v \<le> b"
proof (cases "v = of_int b")
  case True
  then show ?thesis by (simp add: py_round_of_int)
next
  case False
  assume "v \<le> of_int b"
  with False have "v < of_int b" by simp
  then have "\<lfloor>v\<rfloor> < b" by (simp add: floor_less_iff)
  then show ?thesis using py_round_upper [of v] by linarith
qed

lemma py_round_mono: "v \<le> w \<Longrightarrow> py_round v \<le> py_round w"
proof -
  assume vw: "v \<le> w"
  then have fl: "\<lfloor>v\<rfloor> \<le> \<lfloor>w\<rfloor>" by (rule floor_mono)
  show ?thesis
  proof (cases "\<lfloor>v\<rfloor> = \<lfloor>w\<rfloor>")
    case True
    then show ?thesis using vw by (auto simp: py_round_def Let_def)
  next
    case False
    with fl have "\<lfloor>v\<rfloor> + 1 \<le> \<lfloor>w\<rfloor>" by simp
    then show ?thesis using py_round_upper [of v] py_round_lower [of w] by linarith
  qed
qed

lemma p2_pos: "0 < (2::real) powi n"
  by simp

lemma p2_mono: "m \<le> n \<Longrightarrow> (2::real) powi m \<le> 2 powi n"
  by (rule power_int_increasing) simp_all

lemma p2_strict: "m < n \<Longrightarrow> (2::real) powi m < 2 powi n"
  by (rule power_int_strict_increasing) simp_all

lemma p2_less_imp: "(2::real) powi m < 2 powi n \<Longrightarrow> m < n"
  using p2_mono [of n m] by (cases "m < n") auto

lemma p2_add: "(2::real) powi (m + n) = 2 powi m * 2 powi n"
  by (rule power_int_add) simp

lemma p2_diff: "(2::real) powi (m - n) = 2 powi m / 2 powi n"
  by (rule power_int_diff) simp

lemma bexp_in_range: "- 1022 \<le> bexp a" "bexp a \<le> 1023"
  using bexp_range [of a] by simp_all

lemma bexp_lower': "- 1022 < bexp a \<Longrightarrow> 2 powi (bexp a) \<le> a"
proof (cases "1 \<le> a")
  case True
  then have "2 powi 0 \<le> a" by simp
  from bexp_up_spec [OF _ this] show ?thesis using True by (simp add: bexp_def)
next
  case False
  assume n: "- 1022 < bexp a"
  from False have "a < 2 powi (0 + 1)" by simp
  from bexp_down_spec [OF _ this] n show ?thesis using False by (simp add: bexp_def)
qed

lemma bexp_upper': "bexp a < 1023 \<Longrightarrow> a < 2 powi (bexp a + 1)"
proof (cases "1 \<le> a")
  case True
  assume n: "bexp a < 1023"
  from True have "2 powi 0 \<le> a" by simp
  from bexp_up_spec [OF _ this] n show ?thesis using True by (simp add: bexp_def)
next
  case False
  then have "a < 2 powi (0 + 1)" by simp
  from bexp_down_spec [OF _ this] show ?thesis using False by (simp add: bexp_def)
qed

lemma bexp_mono: "a \<le> b \<Longrightarrow> bexp a \<le> bexp b"
proof (rule ccontr)
  assume ab: "a \<le> b" and "\<not> bexp a \<le> bexp b"
  then have lt: "bexp b + 1 \<le> bexp a" by simp
  have "- 1022 < bexp a" using lt bexp_in_range(1) [of b] by linarith
  then have 1: "2 powi (bexp a) \<le> a" by (rule bexp_lower')
  have "bexp b < 1023" using lt bexp_in_range(2) [of a] by linarith
  then have 2: "b < 2 powi (bexp b + 1)" by (rule bexp_upper')
  have "(2::real) powi (bexp b + 1) \<le> 2 powi (bexp a)" using lt by (rule p2_mono)
  then show False using 1 2 ab by linarith
qed

lemma bexp_unique:
  assumes "- 1022 \<le> e" "e \<le> 1023" "2 powi e \<le> a" "a < 2 powi (e + 1)"
  shows "bexp a = e"
proof -
  have le: "bexp a \<le> e"
  proof (rule ccontr)
    assume "\<not> bexp a \<le> e"
    then have g: "e + 1 \<le> bexp a" by simp
    then have "- 1022 < bexp a" using assms(1) by linarith
    then have "2 powi (bexp a) \<le> a" by (rule bexp_lower')
    moreover have "(2::real) powi (e + 1) \<le> 2 powi (bexp a)" using g by (rule p2_mono)
    ultimately show False using assms(4) by linarith
  qed
  have ge: "e \<le> bexp a"
  proof (rule ccontr)
    assume "\<not> e \<le> bexp a"
    then have g: "bexp a + 1 \<le> e" by simp
    then have "bexp a < 1023" using assms(2) by linarith
    then have "a < 2 powi (bexp a + 1)" by (rule bexp_upper')
    moreover have "(2::real) powi (bexp a + 1) \<le> 2 powi e" using g by (rule p2_mono)
    ultimately show False using assms(3) by linarith
  qed
  show ?thesis using le ge by simp
qed

lemma bexp_subnormal: "a < 2 powi (- 1022) \<Longrightarrow> bexp a = - 1022"
proof (rule ccontr)
  assume a: "a < 2 powi (- 1022)" and "bexp a \<noteq> - 1022"
  then have g: "- 1022 < bexp a" using bexp_in_range(1) [of a] by linarith
  then have "2 powi (bexp a) \<le> a" by (rule bexp_lower')
  moreover have "(2::real) powi (- 1022) \<le> 2 powi (bexp a)" using g by (intro p2_mono) simp
  ultimately show False using a by linarith
qed

lemma round_mag_unfold:
  "round_mag a = of_int (py_round (a / 2 powi (bexp a - 52))) * 2 powi (bexp a - 52)"
  by (simp add: round_mag_def Let_def)

lemma round_mag_nonneg: "0 \<le> a \<Longrightarrow> 0 \<le> round_mag a"
proof -
  assume "0 \<le> a"
  then have "of_int 0 \<le> a / 2 powi (bexp a - 52)" by simp
  then have "0 \<le> py_round (a / 2 powi (bexp a - 52))" by (rule py_round_ge)
  then show ?thesis by (simp add: round_mag_unfold)
qed

lemma round_mag_le_next:
  assumes "a < 2 powi (bexp a + 1)"
  shows "round_mag a \<le> 2 powi (bexp a + 1)"
proof -
  define u :: real where "u = 2 powi (bexp a - 52)"
  have u: "0 < u" by (simp add: u_def)
  have "bexp a + 1 = 53 + (bexp a - 52)" by simp
  then have "(2::real) powi (bexp a + 1) = 2 powi (53 + (bexp a - 52))" by (rule arg_cong)
  then have split: "(2::real) powi (bexp a + 1) = 2 powi 53 * u"
    unfolding u_def by (simp only: p2_add)
  have "a / u \<le> 2 powi 53" using assms u split by (simp add: field_simps)
  then have "a / u \<le> of_int (2 ^ 53)" by simp
  then have "py_round (a / u) \<le> 2 ^ 53" by (rule py_round_le)
  then have "(of_int (py_round (a / u)) :: real) \<le> of_int (2 ^ 53)" by (simp only: of_int_le_iff)
  then have "of_int (py_round (a / u)) * u \<le> of_int (2 ^ 53) * u"
    using u by (intro mult_right_mono) simp_all
  then show ?thesis using split by (simp add: round_mag_unfold u_def)
qed

lemma round_mag_ge_base:
  assumes "2 powi (bexp a) \<le> a"
  shows "2 powi (bexp a) \<le> round_mag a"
proof -
  define u :: real where "u = 2 powi (bexp a - 52)"
  have u: "0 < u" by (simp add: u_def)
  have "bexp a = 52 + (bexp a - 52)" by simp
  then have "(2::real) powi (bexp a) = 2 powi (52 + (bexp a - 52))" by (rule arg_cong)
  then have split: "(2::real) powi (bexp a) = 2 powi 52 * u"
    unfolding u_def by (simp only: p2_add)
  have "2 powi 52 \<le> a / u" using assms u split by (simp add: field_simps)
  then have "of_int (2 ^ 52) \<le> a / u" by simp
  then have "2 ^ 52 \<le> py_round (a / u)" by (rule py_round_ge)
  then have "(of_int (2 ^ 52) :: real) \<le> of_int (py_round (a / u))" by (simp only: of_int_le_iff)
  then have "of_int (2 ^ 52) * u \<le> of_int (py_round (a / u)) * u"
    using u by (intro mult_right_mono) simp_all
  then show ?thesis using split by (simp add: round_mag_unfold u_def)
qed

lemma round_mag_mono:
  assumes "a \<le> b"
  shows "round_mag a \<le> round_mag b"
proof (cases "bexp a = bexp b")
  case True
  define u :: real where "u = 2 powi (bexp b - 52)"
  have u: "0 < u" by (simp add: u_def)
  have "a / u \<le> b / u" using assms u by (simp add: divide_right_mono)
  then have "py_round (a / u) \<le> py_round (b / u)" by (rule py_round_mono)
  then have "(of_int (py_round (a / u)) :: real) \<le> of_int (py_round (b / u))"
    by (simp only: of_int_le_iff)
  then have "of_int (py_round (a / u)) * u \<le> of_int (py_round (b / u)) * u"
    using u by (intro mult_right_mono) simp_all
  then show ?thesis using True by (simp add: round_mag_unfold u_def)
next
  case False
  then have lt: "bexp a + 1 \<le> bexp b" using bexp_mono [OF assms] by linarith
  have "- 1022 < bexp b" using lt bexp_in_range(1) [of a] by linarith
  then have "2 powi (bexp b) \<le> b" by (rule bexp_lower')
  then have 1: "2 powi (bexp b) \<le> round_mag b" by (rule round_mag_ge_base)
  have "bexp a < 1023" using lt bexp_in_range(2) [of b] by linarith
  then have "a < 2 powi (bexp a + 1)" by (rule bexp_upper')
  then have 2: "round_mag a \<le> 2 powi (bexp a + 1)" by (rule round_mag_le_next)
  have "(2::real) powi (bexp a + 1) \<le> 2 powi (bexp b)" using lt by (rule p2_mono)
  then show ?thesis using 1 2 by linarith
qed

lemma round_mag_exact:
  assumes a: "a = of_int m * 2 powi e" and m: "0 \<le> m" "m < 2 ^ 53" and e: "- 1074 \<le> e"
  shows "round_mag a = a"
proof -
  define E where "E = bexp a"
  have key: "E - 52 \<le> e"
  proof (rule ccontr)
    assume "\<not> E - 52 \<le> e"
    then have g: "e + 53 \<le> E" by simp
    then have "- 1022 < bexp a" using e by (simp add: E_def)
    then have lo: "2 powi E \<le> a" unfolding E_def by (rule bexp_lower')
    have "(of_int m :: real) < of_int (2 ^ 53)" using m(2) by (simp only: of_int_less_iff)
    then have "of_int m * 2 powi e < of_int (2 ^ 53) * (2::real) powi e"
      by (intro mult_strict_right_mono) simp_all
    also have "\<dots> = 2 powi (e + 53)" by (subst p2_add) simp
    also have "\<dots> \<le> 2 powi E" using g by (rule p2_mono)
    finally show False using lo a by simp
  qed
  define k where "k = nat (e - (E - 52))"
  have ek: "e = (E - 52) + int k" using key by (simp add: k_def)
  have "a / 2 powi (E - 52) = of_int m * 2 powi (int k)"
    unfolding a by (subst ek, subst p2_add) simp
  also have "\<dots> = of_int (m * 2 ^ k)" by simp
  finally have q: "a / 2 powi (E - 52) = of_int (m * 2 ^ k)" .
  have "round_mag a = of_int (m * 2 ^ k) * 2 powi (E - 52)"
    unfolding round_mag_unfold E_def [symmetric] q py_round_of_int ..
  also have "\<dots> = a" using q by (simp add: field_simps)
  finally show ?thesis .
qed
lemma rnd_nonneg:
  "0 \<le> x \<Longrightarrow> rnd x = (if 2 powi 1024 \<le> round_mag x then PosInf else Finite (round_mag x))"
proof -
  assume x: "0 \<le> x"
  have "round_mag 0 = 0" by (simp add: round_mag_unfold py_round_def)
  then have "\<not> (2::real) powi 1024 \<le> round_mag 0" by simp
  then show ?thesis using x by (cases "x = 0") (auto simp: rnd_def Let_def)
qed

lemma rnd_neg:
  "x < 0 \<Longrightarrow> rnd x = (if 2 powi 1024 \<le> round_mag (- x) then NegInf else Finite (- round_mag (- x)))"
  by (simp add: rnd_def Let_def)

lemma rnd_mono: "x \<le> y \<Longrightarrow> dle (rnd x) (rnd y)"
proof -
  assume xy: "x \<le> y"
  consider "0 \<le> x" | "x < 0" "0 \<le> y" | "y < 0" using xy by linarith
  then show ?thesis
  proof cases
    case 1
    then have y: "0 \<le> y" using xy by simp
    have "round_mag x \<le> round_mag y" using xy by (rule round_mag_mono)
    then show ?thesis by (simp add: rnd_nonneg [OF 1] rnd_nonneg [OF y])
  next
    case 2
    have "0 \<le> round_mag (- x)" using 2(1) by (intro round_mag_nonneg) simp
    moreover have "0 \<le> round_mag y" using 2(2) by (rule round_mag_nonneg)
    ultimately show ?thesis by (simp add: rnd_neg [OF 2(1)] rnd_nonneg [OF 2(2)])
  next
    case 3
    then have x: "x < 0" using xy by simp
    have "round_mag (- y) \<le> round_mag (- x)" using xy by (intro round_mag_mono) simp
    then show ?thesis by (simp add: rnd_neg [OF 3] rnd_neg [OF x])
  qed
qed

lemma rnd_exact:
  assumes x: "x = of_int m * 2 powi e" and m: "\<bar>m\<bar> < 2 ^ 53" and e: "- 1074 \<le> e" "e \<le> 971"
  shows "rnd x = Finite x"
proof -
  have ax: "\<bar>x\<bar> = of_int \<bar>m\<bar> * 2 powi e" by (simp add: x abs_mult)
  have rm: "round_mag \<bar>x\<bar> = \<bar>x\<bar>" using ax _ m e(1) by (rule round_mag_exact) simp
  have "(of_int \<bar>m\<bar> :: real) < of_int (2 ^ 53)" using m by (simp only: of_int_less_iff)
  then have "of_int \<bar>m\<bar> * 2 powi e < of_int (2 ^ 53) * (2::real) powi e"
    by (intro mult_strict_right_mono) simp_all
  also have "\<dots> = 2 powi (e + 53)" by (subst p2_add) simp
  also have "\<dots> \<le> 2 powi 1024" using e(2) by (intro p2_mono) simp
  finally have small: "\<bar>x\<bar> < 2 powi 1024" using ax by simp
  show ?thesis
  proof (cases "0 \<le> x")
    case True
    then show ?thesis using rm small by (simp add: rnd_nonneg)
  next
    case False
    then have "x < 0" by simp
    then show ?thesis using rm small by (simp add: rnd_neg)
  qed
qed

lemma rnd_of_int: "\<bar>n\<bar> \<le> 2 ^ 53 \<Longrightarrow> rnd (of_int n) = Finite (of_int n)"
proof (cases "\<bar>n\<bar> = 2 ^ 53")
  case True
  then consider "n = 2 ^ 53" | "n = - (2 ^ 53)" by linarith
  then show ?thesis
  proof cases
    case 1
    have "rnd (of_int (2 ^ 52) * 2 powi 1) = Finite (of_int (2 ^ 52) * 2 powi 1)"
      by (rule rnd_exact [OF refl]) simp_all
    then show ?thesis using 1 by simp
  next
    case 2
    have "rnd (of_int (- (2 ^ 52)) * 2 powi 1) = Finite (of_int (- (2 ^ 52)) * 2 powi 1)"
      by (rule rnd_exact [OF refl]) simp_all
    then show ?thesis using 2 by simp
  qed
next
  case False
  assume "\<bar>n\<bar> \<le> 2 ^ 53"
  with False have "\<bar>n\<bar> < 2 ^ 53" by simp
  then have "rnd (of_int n * 2 powi 0) = Finite (of_int n * 2 powi 0)"
    by (intro rnd_exact [OF refl]) simp_all
  then show ?thesis by simp
qed

lemma rnd_0: "rnd 0 = Finite 0"
  using rnd_of_int [of 0] by simp

lemma rnd_1: "rnd 1 = Finite 1"
  using rnd_of_int [of 1] by simp

lemma rnd_min_subnormal: "rnd (2 powi (- 1074)) = Finite (2 powi (- 1074))"
  using rnd_exact [of "2 powi (- 1074)" 1 "- 1074"] by simp

lemma round_mag_grid: "\<exists>k::int. round_mag a = of_int k * 2 powi (- 1074)"
proof -
  define j where "j = nat (bexp a - 52 + 1074)"
  have "bexp a - 52 = int j + (- 1074)" using bexp_in_range(1) [of a] by (simp add: j_def)
  then have "(2::real) powi (bexp a - 52) = 2 powi (int j + (- 1074))" by (rule arg_cong)
  then have "(2::real) powi (bexp a - 52) = of_int (2 ^ j) * 2 powi (- 1074)"
    by (simp only: p2_add) simp
  then have "round_mag a = of_int (py_round (a / 2 powi (bexp a - 52)) * 2 ^ j) * 2 powi (- 1074)"
    by (simp add: round_mag_unfold)
  then show ?thesis by blast
qed

lemma double_grid: "is_double x \<Longrightarrow> \<exists>k::int. x = of_int k * 2 powi (- 1074)"
proof -
  assume d: "is_double x"
  show ?thesis
  proof (cases "0 \<le> x")
    case True
    then have "round_mag x = x" using d by (simp add: is_double_def rnd_nonneg split: if_splits)
    then show ?thesis using round_mag_grid [of x] by simp
  next
    case False
    then have n: "x < 0" by simp
    then have "- round_mag (- x) = x" using d by (simp add: is_double_def rnd_neg split: if_splits)
    moreover obtain k :: int where "round_mag (- x) = of_int k * 2 powi (- 1074)"
      using round_mag_grid [of "- x"] by blast
    ultimately have "x = of_int (- k) * 2 powi (- 1074)" by simp
    then show ?thesis by blast
  qed
qed

lemma double_gap:
  assumes "is_double a" "is_double b" "a < b"
  shows "2 powi (- 1074) \<le> b - a"
proof -
  obtain j k :: int where a: "a = of_int j * 2 powi (- 1074)" and b: "b = of_int k * 2 powi (- 1074)"
    using double_grid [OF assms(1)] double_grid [OF assms(2)] by blast
  have "of_int j * 2 powi (- 1074) < of_int k * (2::real) powi (- 1074)" using assms(3) a b by simp
  then have "(of_int j :: real) < of_int k" by (simp only: mult_less_cancel_right_pos p2_pos)
  then have "j + 1 \<le> k" by simp
  then have "(of_int (j + 1) :: real) \<le> of_int k" by (simp only: of_int_le_iff)
  then have "of_int (j + 1) * 2 powi (- 1074) \<le> of_int k * (2::real) powi (- 1074)"
    by (intro mult_right_mono) simp_all
  then show ?thesis unfolding a b by (simp add: algebra_simps)
qed

lemma width_positive:
  assumes "is_double a" "is_double b" "a < b"
  shows "fsub (Finite b) (Finite a) = PosInf
         \<or> (\<exists>t. fsub (Finite b) (Finite a) = Finite t \<and> 0 < t)"
proof -
  have "dle (rnd (2 powi (- 1074))) (rnd (b - a))"
    using double_gap [OF assms] by (rule rnd_mono)
  then have "dle (Finite (2 powi (- 1074))) (rnd (b - a))" by (simp only: rnd_min_subnormal)
  moreover have "fsub (Finite b) (Finite a) = rnd (b - a)" by (simp add: fsub_def)
  moreover have "0 < (2::real) powi (- 1074)" by (rule p2_pos)
  ultimately show ?thesis
  proof (cases "rnd (b - a)")
    case (Finite t)
    assume "dle (Finite (2 powi (- 1074))) (rnd (b - a))" "0 < (2::real) powi (- 1074)"
      "fsub (Finite b) (Finite a) = rnd (b - a)"
    then have "2 powi (- 1074) \<le> t" "0 < (2::real) powi (- 1074)"
      "fsub (Finite b) (Finite a) = Finite t"
      using Finite by (simp_all only: dle.simps)
    then have "fsub (Finite b) (Finite a) = Finite t \<and> 0 < t" by linarith
    then show ?thesis by blast
  qed simp_all
qed

section \<open>Lemmas on the mappers\<close>

lemma dle_between:
  "dle (Finite a) r \<Longrightarrow> dle r (Finite b) \<Longrightarrow> \<exists>v. r = Finite v \<and> a \<le> v \<and> v \<le> b"
  by (cases r) simp_all

lemma dle_not_NaN: "dle a b \<Longrightarrow> a \<noteq> NaN \<and> b \<noteq> NaN"
  by (cases a; cases b) simp_all

lemma rnd_not_NaN: "rnd x \<noteq> NaN"
  by (cases "x < 0") (simp_all add: rnd_neg rnd_nonneg)

lemma dle_rnd_PosInf: "dle (rnd x) PosInf"
  using rnd_not_NaN [of x] by (cases "rnd x") simp_all

lemma dle_NegInf_rnd: "dle NegInf (rnd x)"
  using rnd_not_NaN [of x] by (cases "rnd x") simp_all

lemma fsub_Finite_mono:
  "dle x y \<Longrightarrow> dle (fsub x (Finite c)) (fsub y (Finite c))"
proof (cases x; cases y)
  fix a b
  assume "dle x y" "x = Finite a" "y = Finite b"
  then show ?thesis using rnd_mono [of "a - c" "b - c"] by (simp add: fsub_def)
qed (simp_all add: fsub_def dle_rnd_PosInf dle_NegInf_rnd)

lemma fsub_Finite_not_NaN: "x \<noteq> NaN \<Longrightarrow> fsub x (Finite c) \<noteq> NaN"
proof (cases x)
  case (Finite a)
  then show ?thesis by (cases "a - c < 0") (simp_all add: fsub_def rnd_neg rnd_nonneg)
qed (simp_all add: fsub_def)

lemma fdiv_pos_mono:
  "0 < t \<Longrightarrow> dle p q \<Longrightarrow> dle (fdiv p (Finite t)) (fdiv q (Finite t))"
proof (cases p; cases q)
  fix a b
  assume t: "0 < t" and "dle p q" "p = Finite a" "q = Finite b"
  then have "a / t \<le> b / t" by (simp add: divide_right_mono)
  then have "dle (rnd (a / t)) (rnd (b / t))" by (rule rnd_mono)
  then show ?thesis using t \<open>p = Finite a\<close> \<open>q = Finite b\<close> by simp
qed (simp_all add: dle_rnd_PosInf dle_NegInf_rnd)

lemma np_clip_unit:
  "v \<noteq> NaN \<Longrightarrow> \<exists>c. np_clip v (Finite 0) (Finite 1) = Finite c \<and> 0 \<le> c \<and> c \<le> 1"
  by (cases v) (auto simp: np_clip_def np_maximum_def np_minimum_def)

lemma np_clip_mono:
  "dle v w \<Longrightarrow> dle (np_clip v (Finite 0) (Finite 1)) (np_clip w (Finite 0) (Finite 1))"
  by (cases v; cases w) (auto simp: np_clip_def np_maximum_def np_minimum_def)

lemma good_range_width:
  assumes "good_range xmin xmax"
  shows "\<exists>t. fsub (Finite xmax) (Finite xmin) = Finite t \<and> 0 < t"
  using assms width_positive [of xmin xmax] by (auto simp: good_range_def)

lemma unit_frac_range:
  assumes "good_range xmin xmax" "x \<noteq> NaN"
  shows "\<exists>c. unit_frac x (Finite xmin) (Finite xmax) = Finite c \<and> 0 \<le> c \<and> c \<le> 1"
proof -
  obtain t where t: "fsub (Finite xmax) (Finite xmin) = Finite t" "0 < t"
    using good_range_width [OF assms(1)] by blast
  have s: "fsub x (Finite xmin) \<noteq> NaN" using assms(2) by (rule fsub_Finite_not_NaN)
  have "fdiv (fsub x (Finite xmin)) (Finite t) \<noteq> NaN"
    using s t(2) rnd_not_NaN by (cases "fsub x (Finite xmin)") simp_all
  then show ?thesis unfolding unit_frac_def t(1) by (rule np_clip_unit)
qed

lemma unit_frac_mono:
  assumes "good_range xmin xmax" "dle x1 x2"
  shows "dle (unit_frac x1 (Finite xmin) (Finite xmax)) (unit_frac x2 (Finite xmin) (Finite xmax))"
proof -
  obtain t where t: "fsub (Finite xmax) (Finite xmin) = Finite t" "0 < t"
    using good_range_width [OF assms(1)] by blast
  have "dle (fsub x1 (Finite xmin)) (fsub x2 (Finite xmin))"
    using assms(2) by (rule fsub_Finite_mono)
  then have "dle (fdiv (fsub x1 (Finite xmin)) (Finite t)) (fdiv (fsub x2 (Finite xmin)) (Finite t))"
    using t(2) by (intro fdiv_pos_mono)
  then show ?thesis unfolding unit_frac_def t(1) by (rule np_clip_mono)
qed

lemma good_notes_doubles:
  assumes "good_notes lo hi"
  shows "of_int_double lo = Finite (of_int lo)" "of_int_double (hi - lo) = Finite (of_int (hi - lo))"
    "rnd (of_int hi) = Finite (of_int hi)"
proof -
  have "\<bar>lo\<bar> \<le> 2 ^ 53" "\<bar>hi - lo\<bar> \<le> 2 ^ 53" "\<bar>hi\<bar> \<le> 2 ^ 53"
    using assms by (auto simp: good_notes_def)
  then show "of_int_double lo = Finite (of_int lo)"
    "of_int_double (hi - lo) = Finite (of_int (hi - lo))" "rnd (of_int hi) = Finite (of_int hi)"
    unfolding of_int_double_def by (simp_all only: rnd_of_int)
qed

lemma note_of_frac:
  assumes "good_notes lo hi" "0 \<le> c" "c \<le> 1"
  shows "\<exists>v. fadd (of_int_double lo) (fmul (Finite c) (of_int_double (hi - lo))) = Finite v
             \<and> of_int lo \<le> v \<and> v \<le> of_int hi"
proof -
  note d = good_notes_doubles [OF assms(1)]
  define D :: real where "D = of_int (hi - lo)"
  have D: "0 \<le> D" using assms(1) by (simp add: D_def good_notes_def)
  have "0 \<le> c * D" "c * D \<le> D" using assms(2,3) D by (simp_all add: mult_left_le_one_le)
  then have "dle (rnd 0) (rnd (c * D))" "dle (rnd (c * D)) (rnd D)" by (simp_all only: rnd_mono)
  moreover have "rnd D = Finite D" using d(2) by (simp add: D_def of_int_double_def)
  ultimately obtain p where p: "rnd (c * D) = Finite p" "0 \<le> p" "p \<le> D"
    using dle_between [of 0 "rnd (c * D)" D] by (auto simp: rnd_0)
  have "of_int lo \<le> of_int lo + p" "of_int lo + p \<le> of_int hi" using p(2,3) by (simp_all add: D_def)
  then have "dle (rnd (of_int lo)) (rnd (of_int lo + p))" "dle (rnd (of_int lo + p)) (rnd (of_int hi))"
    by (simp_all only: rnd_mono)
  moreover have "rnd (of_int lo) = Finite (of_int lo)" using d(1) by (simp add: of_int_double_def)
  ultimately obtain v where v: "rnd (of_int lo + p) = Finite v" "of_int lo \<le> v" "v \<le> of_int hi"
    using dle_between [of "of_int lo" "rnd (of_int lo + p)" "of_int hi"] d(3) by auto
  show ?thesis using v p(1) d(1,2) by (simp add: D_def)
qed

lemma note_of_frac_mono:
  assumes "good_notes lo hi" "c1 \<le> c2"
  shows "dle (fadd (of_int_double lo) (fmul (Finite c1) (of_int_double (hi - lo))))
             (fadd (of_int_double lo) (fmul (Finite c2) (of_int_double (hi - lo))))"
proof -
  note d = good_notes_doubles [OF assms(1)]
  define D :: real where "D = of_int (hi - lo)"
  have D: "0 \<le> D" using assms(1) by (simp add: D_def good_notes_def)
  have "c1 * D \<le> c2 * D" using assms(2) D by (rule mult_right_mono)
  then have m: "dle (rnd (c1 * D)) (rnd (c2 * D))" by (rule rnd_mono)
  have add: "dle (fadd (Finite a) p) (fadd (Finite a) q)" if "dle p q" for a p q
    using that rnd_mono [of "a + u" "a + w" for u w]
    by (cases p; cases q) (auto simp: dle_rnd_PosInf dle_NegInf_rnd)
  show ?thesis using m d(1,2) add by (simp add: D_def)
qed
lemma rnd_numeral: "numeral k \<le> (2 ^ 53 :: int) \<Longrightarrow> rnd (numeral k) = Finite (numeral k)"
  using rnd_of_int [of "numeral k"] by simp

lemma rnd_half: "rnd (1 / 2) = Finite (1 / 2)"
  using rnd_exact [of "1 / 2" 1 "- 1"] by simp

lemma rnd_halves: "numeral k < (2 ^ 53 :: int) \<Longrightarrow> rnd (numeral k / 2) = Finite (numeral k / 2)"
  using rnd_exact [of "numeral k / 2" "numeral k" "- 1"] by simp

lemmas double_eval = fsub_def py_truediv_def np_clip_def np_maximum_def np_minimum_def
  of_int_double_def int_round_def Let_def rnd_numeral rnd_0 rnd_1 rnd_half rnd_halves

lemma is_double_0: "is_double 0" by (simp add: is_double_def rnd_0)

lemma is_double_1: "is_double 1" by (simp add: is_double_def rnd_1)


lemma map_amp_to_note_good:
  assumes "good_range xmin xmax"
  shows "map_amp_to_note x (Finite xmin) (Finite xmax) lo hi
           = int_round (note_value x (Finite xmin) (Finite xmax) lo hi)"
proof -
  obtain t where t: "fsub (Finite xmax) (Finite xmin) = Finite t" "0 < t"
    using good_range_width [OF assms] by blast
  have "\<not> dle (Finite xmax) (Finite xmin)" using assms by (simp add: good_range_def)
  then show ?thesis using t
    by (simp add: map_amp_to_note_def note_value_def unit_frac_def py_truediv_def Let_def)
qed

lemma unit_frac_at_min:
  assumes "good_range xmin xmax"
  shows "unit_frac (Finite xmin) (Finite xmin) (Finite xmax) = Finite 0"
proof -
  obtain t where t: "fsub (Finite xmax) (Finite xmin) = Finite t" "0 < t"
    using good_range_width [OF assms] by blast
  have "fsub (Finite xmin) (Finite xmin) = Finite 0" by (simp add: fsub_def rnd_0)
  then show ?thesis using t
    by (simp add: unit_frac_def rnd_0 np_clip_def np_maximum_def np_minimum_def)
qed

lemma unit_frac_at_max:
  assumes "good_range xmin xmax"
  shows "unit_frac (Finite xmax) (Finite xmin) (Finite xmax) = Finite 1"
proof -
  obtain t where t: "fsub (Finite xmax) (Finite xmin) = Finite t" "0 < t"
    using good_range_width [OF assms] by blast
  then show ?thesis
    by (simp add: unit_frac_def rnd_1 np_clip_def np_maximum_def np_minimum_def)
qed

lemma good_range_0_1: "good_range 0 1"
  by (simp add: good_range_def is_double_0 is_double_1 fsub_def rnd_1)

lemma good_notes_40_80: "good_notes 40 80"
  by (simp add: good_notes_def)

lemma note_value_range:
  assumes "good_range xmin xmax" "good_notes lo hi" "x \<noteq> NaN"
  shows "\<exists>v. note_value x (Finite xmin) (Finite xmax) lo hi = Finite v
             \<and> of_int lo \<le> v \<and> v \<le> of_int hi"
proof -
  obtain c where c: "unit_frac x (Finite xmin) (Finite xmax) = Finite c" "0 \<le> c" "c \<le> 1"
    using unit_frac_range [OF assms(1,3)] by blast
  show ?thesis unfolding note_value_def c(1) using assms(2) c(2,3) by (rule note_of_frac)
qed

lemma map_amp_to_note_range:
  assumes "good_range xmin xmax" "good_notes lo hi" "x \<noteq> NaN"
  shows "\<exists>n. map_amp_to_note x (Finite xmin) (Finite xmax) lo hi = Inr n \<and> lo \<le> n \<and> n \<le> hi"
proof -
  obtain v where v: "note_value x (Finite xmin) (Finite xmax) lo hi = Finite v"
      "of_int lo \<le> v" "v \<le> of_int hi"
    using note_value_range [OF assms] by blast
  have "lo \<le> py_round v" "py_round v \<le> hi"
    using v(2,3) by (simp_all add: py_round_ge py_round_le)
  then show ?thesis by (simp add: map_amp_to_note_good [OF assms(1)] v(1) int_round_def)
qed

lemma map_amp_to_note_mono:
  assumes "good_range xmin xmax" "good_notes lo hi" "dle x1 x2"
    "map_amp_to_note x1 (Finite xmin) (Finite xmax) lo hi = Inr n1"
    "map_amp_to_note x2 (Finite xmin) (Finite xmax) lo hi = Inr n2"
  shows "n1 \<le> n2"
proof -
  have nn: "x1 \<noteq> NaN" "x2 \<noteq> NaN" using dle_not_NaN [OF assms(3)] by simp_all
  obtain c1 where c1: "unit_frac x1 (Finite xmin) (Finite xmax) = Finite c1"
    using unit_frac_range [OF assms(1) nn(1)] by blast
  obtain c2 where c2: "unit_frac x2 (Finite xmin) (Finite xmax) = Finite c2"
    using unit_frac_range [OF assms(1) nn(2)] by blast
  have "c1 \<le> c2" using unit_frac_mono [OF assms(1,3)] by (simp add: c1 c2)
  then have m: "dle (note_value x1 (Finite xmin) (Finite xmax) lo hi)
                    (note_value x2 (Finite xmin) (Finite xmax) lo hi)"
    unfolding note_value_def c1 c2 using assms(2) by (intro note_of_frac_mono)
  obtain v1 where v1: "note_value x1 (Finite xmin) (Finite xmax) lo hi = Finite v1"
    using note_value_range [OF assms(1,2) nn(1)] by blast
  obtain v2 where v2: "note_value x2 (Finite xmin) (Finite xmax) lo hi = Finite v2"
    using note_value_range [OF assms(1,2) nn(2)] by blast
  have "v1 \<le> v2" using m by (simp add: v1 v2)
  then have "py_round v1 \<le> py_round v2" by (rule py_round_mono)
  then show ?thesis
    using assms(4,5) by (simp add: map_amp_to_note_good [OF assms(1)] v1 v2 int_round_def)
qed
lemma round_mag_big:
  assumes "2 powi 1024 \<le> a"
  shows "2 powi 1024 \<le> round_mag a"
proof -
  have "bexp a = 1023"
  proof (rule ccontr)
    assume "bexp a \<noteq> 1023"
    then have lt: "bexp a < 1023" using bexp_in_range(2) [of a] by simp
    then have "a < 2 powi (bexp a + 1)" by (rule bexp_upper')
    moreover have "(2::real) powi (bexp a + 1) \<le> 2 powi 1024" using lt by (intro p2_mono) simp
    ultimately show False using assms by linarith
  qed
  then have e: "bexp a + 1 = 1024" by simp
  have "(2::real) powi (bexp a) \<le> 2 powi 1024" by (intro p2_mono) (simp add: \<open>bexp a = 1023\<close>)
  have lo: "2 powi (bexp a) \<le> a"
    using assms p2_mono [of "bexp a" 1024] \<open>bexp a = 1023\<close> by simp
  define u :: real where "u = 2 powi (bexp a - 52)"
  have u: "0 < u" by (simp add: u_def)
  have "1024 = 53 + (bexp a - 52)" using \<open>bexp a = 1023\<close> by simp
  then have "(2::real) powi 1024 = 2 powi (53 + (bexp a - 52))" by (rule arg_cong)
  then have split: "(2::real) powi 1024 = 2 powi 53 * u" unfolding u_def by (simp only: p2_add)
  have "2 powi 53 \<le> a / u" using assms u unfolding split by (simp add: field_simps)
  then have "of_int (2 ^ 53) \<le> a / u" by simp
  then have "2 ^ 53 \<le> py_round (a / u)" by (rule py_round_ge)
  then have "(of_int (2 ^ 53) :: real) \<le> of_int (py_round (a / u))" by (simp only: of_int_le_iff)
  then have "of_int (2 ^ 53) * u \<le> of_int (py_round (a / u)) * u"
    using u by (intro mult_right_mono) simp_all
  then have "2 powi 53 * u \<le> round_mag a" by (simp add: round_mag_unfold u_def)
  then show ?thesis unfolding split .
qed

lemma huge_pos: "0 < huge"
  by (simp only: huge_def p2_pos)

lemma huge_double: "is_double huge" "is_double (- huge)"
proof -
  have "1023 = 52 + (971::int)" by simp
  then have "(2::real) powi 1023 = 2 powi (52 + 971)" by (rule arg_cong)
  then have h: "huge = of_int (2 ^ 52) * 2 powi 971" unfolding huge_def by (simp only: p2_add) simp
  then have h': "- huge = of_int (- (2 ^ 52)) * 2 powi 971" by simp
  show "is_double huge" unfolding is_double_def by (rule rnd_exact [OF h]) simp_all
  show "is_double (- huge)" unfolding is_double_def by (rule rnd_exact [OF h']) simp_all
qed

lemma huge_width: "fsub (Finite huge) (Finite (- huge)) = PosInf"
proof -
  have "1024 = 1023 + (1::int)" by simp
  then have "(2::real) powi 1024 = 2 powi (1023 + 1)" by (rule arg_cong)
  then have "(2::real) powi 1024 = huge + huge" unfolding huge_def by (simp only: p2_add) simp
  then have "2 powi 1024 \<le> round_mag (huge + huge)" using round_mag_big [of "huge + huge"] by simp
  moreover have "0 \<le> huge + huge" using huge_pos by simp
  ultimately have "rnd (huge + huge) = PosInf" by (simp add: rnd_nonneg)
  then show ?thesis by (simp add: fsub_def)
qed

lemma huge_range_raises:
  "map_amp_to_note (Finite huge) (Finite (- huge)) (Finite huge) 40 80 = Inl ValueError"
proof -
  have "\<not> dle (Finite huge) (Finite (- huge))" using huge_pos by simp
  then show ?thesis
    by (simp add: map_amp_to_note_def huge_width py_truediv_def np_clip_def np_maximum_def
          np_minimum_def int_round_def of_int_double_def rnd_numeral)
qed

lemma rnd_at:
  assumes "2 powi e \<le> a" "a < 2 powi (e + 1)" "- 1022 \<le> e" "e \<le> 1022"
  shows "rnd a = Finite (of_int (py_round (a / 2 powi (e - 52))) * 2 powi (e - 52))"
proof -
  have b: "bexp a = e" using assms(3) _ assms(1,2) by (rule bexp_unique) (use assms(4) in simp)
  have pos: "0 \<le> a" using assms(1) p2_pos [of e] by linarith
  have "round_mag a \<le> 2 powi (bexp a + 1)" using assms(2) b by (intro round_mag_le_next) simp
  also have "\<dots> < 2 powi 1024" using assms(4) b by (intro p2_strict) simp
  finally have "\<not> 2 powi 1024 \<le> round_mag a" by simp
  then show ?thesis using pos b by (simp add: rnd_nonneg round_mag_unfold)
qed

lemma rnd_big_note: "rnd 9007199254740993 = Finite 9007199254740992"
proof -
  have "rnd 9007199254740993
      = Finite (of_int (py_round (9007199254740993 / 2 powi (53 - 52))) * 2 powi (53 - 52))"
    by (rule rnd_at) simp_all
  then show ?thesis by (simp add: py_round_def)
qed

lemma big_note_boundary:
  "map_amp_to_note (Finite 0) (Finite 0) (Finite 1) 9007199254740993 9007199254740993
     = Inr 9007199254740992"
  by (simp add: map_amp_to_note_def double_eval rnd_big_note py_round_def)

lemma nan_input_raises: "map_amp_to_note NaN (Finite 0) (Finite 1) 40 80 = Inl ValueError"
  by (simp add: map_amp_to_note_def double_eval)

lemma half_way_note:
  "note_value (Finite (1 / 2)) (Finite 0) (Finite 1) 40 41 = Finite (40 + 1 / 2)"
  "map_amp_to_note (Finite (1 / 2)) (Finite 0) (Finite 1) 40 41 = Inr 40"
  "map_amp_to_note (Finite (1 / 2)) (Finite 0) (Finite 1) 41 42 = Inr 42"
  by (simp_all add: map_amp_to_note_def note_value_def unit_frac_def double_eval py_round_def)
lemma py_round_near: "\<bar>of_int (py_round v) - v\<bar> \<le> 1 / 2"
proof -
  have "of_int \<lfloor>v\<rfloor> \<le> v" "v < of_int \<lfloor>v\<rfloor> + 1" by linarith+
  then show ?thesis by (auto simp: py_round_def Let_def)
qed

lemma py_round_tie_even: "\<bar>of_int (py_round v) - v\<bar> = 1 / 2 \<Longrightarrow> even (py_round v)"
proof -
  have "of_int \<lfloor>v\<rfloor> \<le> v" "v < of_int \<lfloor>v\<rfloor> + 1" by linarith+
  then show "\<bar>of_int (py_round v) - v\<bar> = 1 / 2 \<Longrightarrow> even (py_round v)"
    by (auto simp: py_round_def Let_def split: if_splits)
qed

lemma good_notes_40_41: "good_notes 40 41" "good_notes 41 42"
  by (simp_all add: good_notes_def)

section \<open>Lemmas on the workers\<close>

lemma dlt_not_dle: "dlt a b \<Longrightarrow> \<not> dle b a"
  by (cases a; cases b) simp_all

lemma update_frame:
  "midi (update s) = midi s \<and> prev_note (update s) = prev_note s
   \<and> calibrating (update s) = calibrating s \<and> amp_min (update s) = amp_min s
   \<and> amp_max (update s) = amp_max s \<and> filt (update s) = filt s"
proof (induction s rule: update.induct)
  case (1 s)
  show ?case
  proof (cases "queue_empty (vis_queue s)")
    case True
    then show ?thesis by (simp add: update.simps [of s])
  next
    case False
    then obtain v rest where it: "items (vis_queue s) = v # rest"
      by (cases "items (vis_queue s)") (auto simp: queue_empty_def)
    then have g: "get_nowait (vis_queue s) = Inr (v, (vis_queue s)\<lparr>items := rest\<rparr>)"
      by (simp add: get_nowait_def)
    from "1.IH" [OF False g refl] show ?thesis
      using False g by (simp add: update.simps [of s])
  qed
qed

lemma vis_tick_frame:
  "midi (vis_tick vis i s) = midi s \<and> prev_note (vis_tick vis i s) = prev_note s
   \<and> calibrating (vis_tick vis i s) = calibrating s \<and> amp_min (vis_tick vis i s) = amp_min s
   \<and> amp_max (vis_tick vis i s) = amp_max s \<and> filt (vis_tick vis i s) = filt s"
  using update_frame [of s] by (simp add: vis_tick_def)

lemma close_window_midi: "midi (close_window r t0 now lo hi s) = midi s"
  by (simp add: close_window_def)

lemma close_window_open:
  "dlt (fsub now t0) calibration_duration \<Longrightarrow> close_window r t0 now lo hi s = s"
  by (simp add: close_window_def dlt_not_dle)

lemma calibrate_midi: "midi (state_of (calibrate r t0 now x s)) = midi s"
  by (simp add: calibrate_def Let_def close_window_midi split: option.splits)

lemma calibrate_open:
  "dlt (fsub now t0) calibration_duration \<Longrightarrow>
     calibrating (state_of (calibrate r t0 now x s)) = calibrating s
     \<and> prev_note (state_of (calibrate r t0 now x s)) = prev_note s"
  by (simp add: calibrate_def Let_def close_window_open split: option.splits)

lemma calibrate_feeds:
  assumes "dlt (fsub now t0) calibration_duration" "amp_consistent s"
  shows "\<exists>s'. calibrate r t0 now y s = Normal s'
     \<and> amp_min s' = Some (fold_amp py_min (amp_min s) y)
     \<and> amp_max s' = Some (fold_amp py_max (amp_max s) y)
     \<and> midi s' = midi s \<and> calibrating s' = calibrating s \<and> prev_note s' = prev_note s
     \<and> vis_queue s' = vis_queue s \<and> filt s' = filt s"
proof (cases "amp_min s")
  case None
  then have "amp_max s = None" using assms(2) by (simp add: amp_consistent_def)
  then show ?thesis using None assms(1)
    by (simp add: calibrate_def Let_def close_window_open fold_amp_def)
next
  case (Some lo)
  then obtain hi where "amp_max s = Some hi" using assms(2) by (auto simp: amp_consistent_def)
  then show ?thesis using Some assms(1)
    by (simp add: calibrate_def Let_def close_window_open fold_amp_def)
qed

lemma live_play_iter_feeds:
  assumes "calibrating s" "dlt (fsub now t0) calibration_duration" "amp_consistent s"
    "py_index sample (channel A) = Inr raw" "qsize (vis_queue s) < 2000"
    "maxsize (vis_queue s) = 2000"
  shows "\<exists>s'. live_play_iter A t0 (Some (sample, now)) s = Normal s'
     \<and> midi s' = midi s \<and> calibrating s' \<and> prev_note s' = prev_note s
     \<and> amp_min s' = Some (fold_amp py_min (amp_min s) (fst (add (filt s) raw)))
     \<and> amp_max s' = Some (fold_amp py_max (amp_max s) (fst (add (filt s) raw)))
     \<and> items (vis_queue s') = items (vis_queue s) @ [fst (add (filt s) raw)]"
proof -
  obtain y f' where ad: "add (filt s) raw = (y, f')" by (cases "add (filt s) raw")
  have c: "amp_consistent (s\<lparr>filt := f'\<rparr>)" using assms(3) by (simp add: amp_consistent_def)
  obtain s1 where s1: "calibrate True t0 now y (s\<lparr>filt := f'\<rparr>) = Normal s1"
    "amp_min s1 = Some (fold_amp py_min (amp_min s) y)"
    "amp_max s1 = Some (fold_amp py_max (amp_max s) y)"
    "midi s1 = midi s" "calibrating s1 = calibrating s" "prev_note s1 = prev_note s"
    "vis_queue s1 = vis_queue s"
    using calibrate_feeds [OF assms(2) c, of True y] by auto
  have put: "put_nowait (vis_queue s1) y = Inr ((vis_queue s)\<lparr>items := items (vis_queue s) @ [y]\<rparr>)"
    using assms(5,6) s1(7) by (simp add: put_nowait_def)
  show ?thesis using assms(1,4) ad s1 put by (simp add: live_play_iter_def)
qed

lemma live_mod_iter_feeds:
  assumes "calibrating s" "dlt (fsub now t0) calibration_duration" "amp_consistent s"
    "py_index sample (channel A) = Inr raw" "qsize (vis_queue s) < 2000"
    "maxsize (vis_queue s) = 2000"
  shows "\<exists>s'. live_mod_iter A t0 (Some (sample, now)) s = Normal s'
     \<and> midi s' = midi s \<and> calibrating s'
     \<and> amp_min s' = Some (fold_amp py_min (amp_min s) (fst (add (filt s) raw)))
     \<and> amp_max s' = Some (fold_amp py_max (amp_max s) (fst (add (filt s) raw)))
     \<and> items (vis_queue s') = items (vis_queue s) @ [fst (add (filt s) raw)]"
proof -
  obtain y f' where ad: "add (filt s) raw = (y, f')" by (cases "add (filt s) raw")
  define q' where "q' = (vis_queue s)\<lparr>items := items (vis_queue s) @ [y]\<rparr>"
  have put: "put_nowait (vis_queue s) y = Inr q'"
    using assms(5,6) by (simp add: put_nowait_def q'_def)
  have c: "amp_consistent (s\<lparr>filt := f', vis_queue := q'\<rparr>)"
    using assms(3) by (simp add: amp_consistent_def)
  obtain s1 where s1: "calibrate False t0 now y (s\<lparr>filt := f', vis_queue := q'\<rparr>) = Normal s1"
    "amp_min s1 = Some (fold_amp py_min (amp_min s) y)"
    "amp_max s1 = Some (fold_amp py_max (amp_max s) y)"
    "midi s1 = midi s" "calibrating s1 = calibrating s"
    "vis_queue s1 = q'"
    using calibrate_feeds [OF assms(2) c, of False y] by auto
  show ?thesis using assms(1,4) ad s1 put by (simp add: live_mod_iter_def q'_def)
qed

lemma live_play_iter_open:
  "calibrating s \<Longrightarrow> window_open t0 p \<Longrightarrow>
     midi (state_of (live_play_iter A t0 p s)) = midi s
     \<and> calibrating (state_of (live_play_iter A t0 p s))
     \<and> prev_note (state_of (live_play_iter A t0 p s)) = prev_note s"
proof (cases p)
  case None
  assume "calibrating s"
  then show ?thesis using None by (simp add: live_play_iter_def)
next
  case (Some sn)
  assume c: "calibrating s" and w: "window_open t0 p"
  obtain sample now where sn: "sn = (sample, now)" by (cases sn)
  have op: "dlt (fsub now t0) calibration_duration" using w Some sn by (simp add: window_open_def)
  show ?thesis
  proof (cases "py_index sample (channel A)")
    case (Inl e)
    then show ?thesis using c Some sn by (simp add: live_play_iter_def)
  next
    case (Inr raw)
    obtain y f' where ad: "add (filt s) raw = (y, f')" by (cases "add (filt s) raw")
    let ?c = "calibrate True t0 now y (s\<lparr>filt := f'\<rparr>)"
    have m: "midi (state_of ?c) = midi s" by (simp add: calibrate_midi)
    have k: "calibrating (state_of ?c)" "prev_note (state_of ?c) = prev_note s"
      using calibrate_open [OF op, of True y "s\<lparr>filt := f'\<rparr>"] c by simp_all
    show ?thesis
    proof (cases ?c)
      case (Raised e s1)
      then show ?thesis using c Some sn Inr ad m k by (simp add: live_play_iter_def)
    next
      case (Normal s1)
      then show ?thesis using c Some sn Inr ad m k
        by (simp add: live_play_iter_def split: sum.splits)
    qed
  qed
qed

lemma live_mod_iter_open:
  "calibrating s \<Longrightarrow> window_open t0 p \<Longrightarrow>
     midi (state_of (live_mod_iter A t0 p s)) = midi s
     \<and> calibrating (state_of (live_mod_iter A t0 p s))"
proof (cases p)
  case None
  assume "calibrating s"
  then show ?thesis using None by (simp add: live_mod_iter_def)
next
  case (Some sn)
  assume c: "calibrating s" and w: "window_open t0 p"
  obtain sample now where sn: "sn = (sample, now)" by (cases sn)
  have op: "dlt (fsub now t0) calibration_duration" using w Some sn by (simp add: window_open_def)
  show ?thesis
  proof (cases "py_index sample (channel A)")
    case (Inl e)
    then show ?thesis using c Some sn by (simp add: live_mod_iter_def)
  next
    case (Inr raw)
    obtain y f' where ad: "add (filt s) raw = (y, f')" by (cases "add (filt s) raw")
    show ?thesis
    proof (cases "put_nowait (vis_queue s) y")
      case (Inl e)
      then show ?thesis using c Some sn Inr ad by (simp add: live_mod_iter_def)
    next
      case qq: (Inr q')
      let ?c = "calibrate False t0 now y (s\<lparr>filt := f', vis_queue := q'\<rparr>)"
      have m: "midi (state_of ?c) = midi s" by (simp add: calibrate_midi)
      have k: "calibrating (state_of ?c)"
        using calibrate_open [OF op, of False y "s\<lparr>filt := f', vis_queue := q'\<rparr>"] c by simp
      show ?thesis using c Some sn Inr ad qq m k by (simp add: live_mod_iter_def)
    qed
  qed
qed

lemma live_play_loop_open:
  "calibrating s \<Longrightarrow> list_all (window_open t0) ps \<Longrightarrow>
     midi (state_of (live_play_loop A t0 vis i ps s)) = midi s
     \<and> prev_note (state_of (live_play_loop A t0 vis i ps s)) = prev_note s"
proof (induction ps arbitrary: s i)
  case Nil
  then show ?case by simp
next
  case (Cons p ps)
  let ?s = "vis_tick vis i s"
  have c: "calibrating ?s" using Cons.prems(1) vis_tick_frame [of vis i s] by simp
  have w: "window_open t0 p" "list_all (window_open t0) ps" using Cons.prems(2) by simp_all
  note it = live_play_iter_open [OF c w(1), of A]
  show ?case
  proof (cases "live_play_iter A t0 p ?s")
    case (Raised e s')
    then show ?thesis using it vis_tick_frame [of vis i s] by simp
  next
    case (Normal s')
    then have "calibrating s'" using it by simp
    from Cons.IH [OF this w(2), of "Suc i"] show ?thesis
      using Normal it vis_tick_frame [of vis i s] by simp
  qed
qed

lemma live_mod_loop_open:
  "calibrating s \<Longrightarrow> list_all (window_open t0) ps \<Longrightarrow>
     midi (state_of (live_mod_loop A t0 vis i ps s)) = midi s"
proof (induction ps arbitrary: s i)
  case Nil
  then show ?case by simp
next
  case (Cons p ps)
  let ?s = "vis_tick vis i s"
  have c: "calibrating ?s" using Cons.prems(1) vis_tick_frame [of vis i s] by simp
  have w: "window_open t0 p" "list_all (window_open t0) ps" using Cons.prems(2) by simp_all
  note it = live_mod_iter_open [OF c w(1), of A]
  show ?case
  proof (cases "live_mod_iter A t0 p ?s")
    case (Raised e s')
    then show ?thesis using it vis_tick_frame [of vis i s] by simp
  next
    case (Normal s')
    then have "calibrating s'" using it by simp
    from Cons.IH [OF this w(2), of "Suc i"] show ?thesis
      using Normal it vis_tick_frame [of vis i s] by simp
  qed
qed












lemma last_on_snoc [simp]:
  "last_on (ms @ [NoteOn n v]) = Some n" "last_on (ms @ [NoteOff n]) = None"
  by (simp_all add: last_on_def)







lemma note_inv_frame:
  "midi t = midi s \<Longrightarrow> prev_note t = prev_note s \<Longrightarrow> calibrating t = calibrating s \<Longrightarrow>
     note_inv s \<Longrightarrow> note_inv t"
  by (simp add: note_inv_def)










lemma rnd_neg_numeral:
  "numeral k \<le> (2 ^ 53 :: int) \<Longrightarrow> rnd (- numeral k) = Finite (- numeral k)"
  using rnd_of_int [of "- numeral k"] by simp

lemmas run_eval =
  live_play_worker_def live_mod_worker_def prerec_play_worker_def prerec_mod_worker_def
  prerec_calibrate_def live_init_def live_play_iter_def live_mod_iter_def prerec_play_iter_def
  prerec_mod_iter_def vis_tick_def put_nowait_def qsize_def main_vis_queue_def Queue_def
  mapped_note_def live_play_note_def prerec_play_note_def mod_send_def live_note_machine_def
  prerec_note_machine_def note_on_def note_off_def send_cc_def data_byte_def calibrate_def
  close_window_def calibration_duration_def py_min_def py_max_def add_def identity_filter_def
  np_min_def np_max_def time_sleep_def demo_args_def py_index_def map_amp_to_note_def
  map_amp_to_cc_def double_eval rnd_neg_numeral py_round_def cut_after_def last_on_def

lemma prerec_five:
  "midi (state_of (prerec_play_worker (demo_args\<lparr>note_high := 41\<rparr>) (Finite 1) (\<lambda>i. False)
                       [Finite 0, Finite 0, Finite 1, Finite 1, Finite 0] identity_filter
                       main_vis_queue))
     = [NoteOn 40 100, NoteOff 40, NoteOn 41 100, NoteOff 41, NoteOn 40 100]"
  by (simp add: run_eval)



lemma rnd_between:
  assumes "is_double a" "is_double b" "a \<le> x" "x \<le> b"
  shows "\<exists>v. rnd x = Finite v \<and> a \<le> v \<and> v \<le> b"
proof -
  have "dle (rnd a) (rnd x)" "dle (rnd x) (rnd b)" using assms(3,4) by (simp_all only: rnd_mono)
  then show ?thesis using assms(1,2) dle_between [of a "rnd x" b] by (simp add: is_double_def)
qed


lemma init_by_norm:
  assumes "fmul (Finite (1 / 2)) fs = Finite v" "v \<noteq> 0"
  shows "dle (fdiv cutoff (Finite v)) (Finite 0) \<or> dle (Finite 1) (fdiv cutoff (Finite v)) \<Longrightarrow>
           RespFilter_init lib fs cutoff = Inl ValueError"
    and "dlt (Finite 0) (fdiv cutoff (Finite v)) \<Longrightarrow> dlt (fdiv cutoff (Finite v)) (Finite 1) \<Longrightarrow>
           RespFilter_init lib fs cutoff =
             (case lfilter_zi lib (fst (design lib (fdiv cutoff (Finite v))))
                     (snd (design lib (fdiv cutoff (Finite v)))) of
                Inl e \<Rightarrow> Inl e
              | Inr zi \<Rightarrow>
                  Inr \<lparr>flt_b = fst (design lib (fdiv cutoff (Finite v))),
                       flt_a = snd (design lib (fdiv cutoff (Finite v))),
                       flt_z = (fmul (fst zi) (Finite 0), fmul (snd zi) (Finite 0))\<rparr>)"
proof -
  show "RespFilter_init lib fs cutoff = Inl ValueError"
    if "dle (fdiv cutoff (Finite v)) (Finite 0) \<or> dle (Finite 1) (fdiv cutoff (Finite v))"
    using that assms by (auto simp: RespFilter_init_def Let_def py_truediv_def butter_def)
  show "RespFilter_init lib fs cutoff =
             (case lfilter_zi lib (fst (design lib (fdiv cutoff (Finite v))))
                     (snd (design lib (fdiv cutoff (Finite v)))) of
                Inl e \<Rightarrow> Inl e
              | Inr zi \<Rightarrow>
                  Inr \<lparr>flt_b = fst (design lib (fdiv cutoff (Finite v))),
                       flt_a = snd (design lib (fdiv cutoff (Finite v))),
                       flt_z = (fmul (fst zi) (Finite 0), fmul (snd zi) (Finite 0))\<rparr>)"
    if "dlt (Finite 0) (fdiv cutoff (Finite v))" "dlt (fdiv cutoff (Finite v)) (Finite 1)"
    using that assms dlt_not_dle
    by (auto simp: RespFilter_init_def Let_def py_truediv_def butter_def
             split: prod.splits sum.splits)
qed






lemma wn_small: "\<exists>w. rnd (1 / 50) = Finite w \<and> 1 / 64 \<le> w \<and> w \<le> 1 / 2"
proof -
  have a: "is_double (1 / 64)" unfolding is_double_def
    using rnd_exact [of "1 / 64" 1 "- 6"] by simp
  have b: "is_double (1 / 2)" by (simp add: is_double_def rnd_half)
  show ?thesis using rnd_between [OF a b, of "1 / 50"] by simp
qed


lemma init_pos_rate_100:
  "RespFilter_init stub_signal (Finite 100) (Finite 1)
     = Inr \<lparr>flt_b = (Finite 1, Finite 0, Finite 0), flt_a = (Finite 1, Finite 0, Finite 0),
            flt_z = (Finite 0, Finite 0)\<rparr>"
proof -
  obtain w where w: "rnd (1 / 50) = Finite w" "1 / 64 \<le> w" "w \<le> 1 / 2" using wn_small by blast
  have n: "fmul (Finite (1 / 2)) (Finite 100) = Finite 50" by (simp add: rnd_numeral)
  have q: "fdiv (Finite 1) (Finite 50) = Finite w" using w(1) by simp
  have "dlt (Finite 0) (Finite w)" "dlt (Finite w) (Finite 1)" using w(2,3) by simp_all
  from init_by_norm(2) [OF n _ this [folded q], of stub_signal] show ?thesis
    by (simp add: stub_signal_def rnd_0)
qed

lemma live_note_machine_step:
  "data_byte (velocity A) \<Longrightarrow> data_byte note \<Longrightarrow> (case prev_note s of None \<Rightarrow> True | Some p \<Rightarrow> data_byte p) \<Longrightarrow>
     live_note_machine A note s
       = Normal (s\<lparr>prev_note := snd (note_step (velocity A) note (prev_note s)),
                   midi := midi s @ fst (note_step (velocity A) note (prev_note s))\<rparr>)
     \<and> prerec_note_machine A note s
       = Normal (s\<lparr>prev_note := snd (note_step (velocity A) note (prev_note s)),
                   midi := midi s @ fst (note_step (velocity A) note (prev_note s))\<rparr>)"
  by (cases "prev_note s")
     (auto simp: live_note_machine_def prerec_note_machine_def note_step_def note_on_def
        note_off_def)

section \<open>The amplitude mappers: claims\<close>

text \<open>
  Claim C5. With a degenerate calibration range, \<^verbatim>\<open>xmax <= xmin\<close>, the note mapper returns
  \<^verbatim>\<open>note_min\<close> and the controller mapper returns 0, whatever the input \<open>x\<close> is (NaN and
  the infinities included): the guard returns before the division.
\<close>

theorem degenerate_range_fallback:
  "dle xmax xmin \<Longrightarrow>
     map_amp_to_note x xmin xmax note_min note_max = Inr note_min
     \<and> map_amp_to_cc x xmin xmax = Inr 0"
  by (simp add: map_amp_to_note_def map_amp_to_cc_def)

theorem degenerate_range_fallback_witness:
  "dle (Finite 1) (Finite 1)
   \<and> map_amp_to_note (Finite (7 / 10)) (Finite 1) (Finite 1) 40 80 = Inr 40
   \<and> map_amp_to_cc (Finite (7 / 10)) (Finite 1) (Finite 1) = Inr 0"
proof -
  have d: "dle (Finite 1) (Finite 1)" by simp
  from degenerate_range_fallback [OF d, of "Finite (7 / 10)" 40 80] d show ?thesis by simp
qed

text \<open>
  Claim C6, as stated: for every range with \<open>xmin < xmax\<close> and every \<open>note_min \<le> note_max\<close>
  the mapper sends \<open>xmin\<close> to \<open>note_min\<close> and \<open>xmax\<close> to \<open>note_max\<close>. Two inputs show that
  binary64 arithmetic does not give that. On the range from \<open>-2 ^ 1023\<close> to \<open>2 ^ 1023\<close>
  the width \<^verbatim>\<open>xmax - xmin\<close> overflows to infinity, the fraction at \<open>x = xmax\<close> is
  \<open>inf / inf\<close>, NaN, and \<^verbatim>\<open>round\<close> raises \<^verbatim>\<open>ValueError\<close>. And with \<open>note_min = 2 ^ 53 + 1\<close>
  the conversion of the note to a float rounds it, and the mapper returns \<open>2 ^ 53\<close> at
  \<open>x = xmin\<close>.
\<close>

theorem boundary_exactness_counterexample:
  "is_double huge \<and> is_double (- huge) \<and> - huge < huge
   \<and> map_amp_to_note (Finite huge) (Finite (- huge)) (Finite huge) 40 80 = Inl ValueError
   \<and> map_amp_to_note (Finite 0) (Finite 0) (Finite 1) 9007199254740993 9007199254740993
       = Inr 9007199254740992"
  using huge_double huge_pos huge_range_raises big_note_boundary by simp

text \<open>
  Claim C6, amended. For every range of binary64 bounds with \<open>xmin < xmax\<close> whose width
  \<^verbatim>\<open>xmax - xmin\<close> does not overflow, and every note range \<open>note_min \<le> note_max\<close> with both
  notes between \<open>-2 ^ 53\<close> and \<open>2 ^ 53\<close> and \<open>note_max - note_min \<le> 2 ^ 53\<close>, the note
  mapper returns exactly \<open>note_min\<close> at \<open>x = xmin\<close> and exactly \<open>note_max\<close> at \<open>x = xmax\<close>.
\<close>

theorem boundary_exactness:
  "good_range xmin xmax \<Longrightarrow> good_notes note_min note_max \<Longrightarrow>
     map_amp_to_note (Finite xmin) (Finite xmin) (Finite xmax) note_min note_max = Inr note_min
     \<and> map_amp_to_note (Finite xmax) (Finite xmin) (Finite xmax) note_min note_max = Inr note_max"
proof -
  assume r: "good_range xmin xmax" and n: "good_notes note_min note_max"
  note d = good_notes_doubles [OF n]
  have lo: "note_value (Finite xmin) (Finite xmin) (Finite xmax) note_min note_max
              = Finite (of_int note_min)"
    using d(1,2) by (simp add: note_value_def unit_frac_at_min [OF r] rnd_0 of_int_double_def)
  have "rnd (of_int note_min + of_int (note_max - note_min)) = Finite (of_int note_max)"
    using d(3) by simp
  then have hi: "note_value (Finite xmax) (Finite xmin) (Finite xmax) note_min note_max
              = Finite (of_int note_max)"
    using d(1,2) by (simp add: note_value_def unit_frac_at_max [OF r] of_int_double_def)
  show ?thesis
    by (simp add: map_amp_to_note_good [OF r] lo hi int_round_def py_round_of_int)
qed

theorem boundary_exactness_witness:
  "good_range 0 1 \<and> good_notes 40 80
   \<and> map_amp_to_note (Finite 0) (Finite 0) (Finite 1) 40 80 = Inr 40
   \<and> map_amp_to_note (Finite 1) (Finite 0) (Finite 1) 40 80 = Inr 80"
  using boundary_exactness [OF good_range_0_1 good_notes_40_80] good_range_0_1 good_notes_40_80
  by simp

text \<open>
  Claim C7, as stated: for every range with \<open>xmin < xmax\<close>, every \<open>note_min \<le> note_max\<close>
  and every input the mapped note lies in \<open>[note_min, note_max]\<close>. A NaN input gives no
  note at all (\<^verbatim>\<open>round\<close> raises \<^verbatim>\<open>ValueError\<close>), so does \<open>x = xmax\<close> on the range from
  \<open>-2 ^ 1023\<close> to \<open>2 ^ 1023\<close>, and with \<open>note_min = note_max = 2 ^ 53 + 1\<close> the note
  returned, \<open>2 ^ 53\<close>, lies below \<open>note_min\<close>.
\<close>

theorem note_range_counterexample:
  "map_amp_to_note NaN (Finite 0) (Finite 1) 40 80 = Inl ValueError
   \<and> is_double huge \<and> is_double (- huge) \<and> - huge < huge
   \<and> map_amp_to_note (Finite huge) (Finite (- huge)) (Finite huge) 40 80 = Inl ValueError
   \<and> map_amp_to_note (Finite 0) (Finite 0) (Finite 1) 9007199254740993 9007199254740993
       = Inr 9007199254740992
   \<and> (9007199254740992 :: int) < 9007199254740993"
  using nan_input_raises huge_double huge_pos huge_range_raises big_note_boundary by simp

text \<open>
  Claim C7, amended. For every range of binary64 bounds with \<open>xmin < xmax\<close> whose width
  does not overflow, and every note range \<open>note_min \<le> note_max\<close> within \<open>-2 ^ 53\<close> and
  \<open>2 ^ 53\<close> with \<open>note_max - note_min \<le> 2 ^ 53\<close>: for every input \<open>x\<close> other than NaN (the
  infinities included) the mapper returns a note in \<open>[note_min, note_max]\<close>, and for any two
  inputs \<^verbatim>\<open>x1 <= x2\<close> the note of \<open>x1\<close> is at most the note of \<open>x2\<close>.
\<close>

theorem note_range_and_monotone:
  "good_range xmin xmax \<Longrightarrow> good_notes note_min note_max \<Longrightarrow>
     (x \<noteq> NaN \<longrightarrow>
        (\<exists>n. map_amp_to_note x (Finite xmin) (Finite xmax) note_min note_max = Inr n
              \<and> note_min \<le> n \<and> n \<le> note_max))
     \<and> (\<forall>x1 x2 n1 n2.
           dle x1 x2
           \<and> map_amp_to_note x1 (Finite xmin) (Finite xmax) note_min note_max = Inr n1
           \<and> map_amp_to_note x2 (Finite xmin) (Finite xmax) note_min note_max = Inr n2
           \<longrightarrow> n1 \<le> n2)"
  using map_amp_to_note_range map_amp_to_note_mono by blast

theorem note_range_and_monotone_witness:
  "good_range 0 1 \<and> good_notes 40 80
   \<and> (\<exists>n. map_amp_to_note (Finite (1 / 2)) (Finite 0) (Finite 1) 40 80 = Inr n \<and> 40 \<le> n \<and> n \<le> 80)
   \<and> dle (Finite 0) (Finite 1)
   \<and> map_amp_to_note (Finite 0) (Finite 0) (Finite 1) 40 80 = Inr 40
   \<and> map_amp_to_note (Finite 1) (Finite 0) (Finite 1) 40 80 = Inr 80
   \<and> (40 :: int) \<le> 80"
proof -
  note t = note_range_and_monotone [OF good_range_0_1 good_notes_40_80, of "Finite (1 / 2)"]
  have a: "map_amp_to_note (Finite 0) (Finite 0) (Finite 1) 40 80 = Inr 40"
    "map_amp_to_note (Finite 1) (Finite 0) (Finite 1) 40 80 = Inr 80"
    by (simp_all add: map_amp_to_note_def double_eval py_round_def)
  have d: "dle (Finite 0) (Finite 1)" by simp
  have "(40 :: int) \<le> 80"
    using t [THEN conjunct2, rule_format, of "Finite 0" "Finite 1" 40 80] a d by blast
  moreover have "\<exists>n. map_amp_to_note (Finite (1 / 2)) (Finite 0) (Finite 1) 40 80 = Inr n
      \<and> 40 \<le> n \<and> n \<le> 80"
    using t [THEN conjunct1] by simp
  ultimately show ?thesis using a d good_range_0_1 good_notes_40_80 by simp
qed

text \<open>
  Claim C8, as stated: the interpolated value is rounded with ties going up. The code
  calls \<^verbatim>\<open>round\<close>, which sends a tie to the even neighbour: on the range \<open>[0, 1]\<close> with
  notes 40 to 41 the input \<open>1 / 2\<close> interpolates to exactly \<open>40.5\<close>, which the code rounds
  to 40 and the specification's wording to 41. And a NaN input is not rounded to any
  integer: the mapper raises.
\<close>

theorem rounding_half_up_counterexample:
  "note_value (Finite (1 / 2)) (Finite 0) (Finite 1) 40 41 = Finite (40 + 1 / 2)
   \<and> map_amp_to_note (Finite (1 / 2)) (Finite 0) (Finite 1) 40 41 = Inr 40
   \<and> spec_to_note (1 / 2) 0 1 40 41 = 41
   \<and> map_amp_to_note NaN (Finite 0) (Finite 1) 40 80 = Inl ValueError"
  using half_way_note nan_input_raises by (simp add: spec_to_note_def)

text \<open>
  Claim C8, amended. On a range of binary64 bounds with \<open>xmin < xmax\<close> whose width does not
  overflow, with notes as in C6, and for every input other than NaN: the mapper clamps
  the computed fraction \<^verbatim>\<open>(x - xmin) / (xmax - xmin)\<close> to \<open>[0, 1]\<close>, interpolates in
  binary64 arithmetic to a value \<open>v\<close> in \<open>[note_min, note_max]\<close>, and returns the integer
  nearest to that computed \<open>v\<close>; when \<open>v\<close> lies exactly half way between two integers it
  returns the even one.
\<close>

theorem note_rounds_half_to_even:
  "good_range xmin xmax \<Longrightarrow> good_notes note_min note_max \<Longrightarrow> x \<noteq> NaN \<Longrightarrow>
     \<exists>v n. note_value x (Finite xmin) (Finite xmax) note_min note_max = Finite v
       \<and> of_int note_min \<le> v \<and> v \<le> of_int note_max
       \<and> map_amp_to_note x (Finite xmin) (Finite xmax) note_min note_max = Inr n
       \<and> \<bar>of_int n - v\<bar> \<le> 1 / 2 \<and> (\<bar>of_int n - v\<bar> = 1 / 2 \<longrightarrow> even n)"
proof -
  assume r: "good_range xmin xmax" and n: "good_notes note_min note_max" and x: "x \<noteq> NaN"
  obtain v where v: "note_value x (Finite xmin) (Finite xmax) note_min note_max = Finite v"
    "of_int note_min \<le> v" "v \<le> of_int note_max"
    using note_value_range [OF r n x] by blast
  have m: "map_amp_to_note x (Finite xmin) (Finite xmax) note_min note_max = Inr (py_round v)"
    by (simp add: map_amp_to_note_good [OF r] v(1) int_round_def)
  show ?thesis using v m py_round_near [of v] py_round_tie_even [of v] by blast
qed

theorem note_rounds_half_to_even_witness:
  "good_range 0 1 \<and> good_notes 40 41 \<and> Finite (1 / 2) \<noteq> NaN
   \<and> note_value (Finite (1 / 2)) (Finite 0) (Finite 1) 40 41 = Finite (40 + 1 / 2)
   \<and> map_amp_to_note (Finite (1 / 2)) (Finite 0) (Finite 1) 40 41 = Inr 40
   \<and> map_amp_to_note (Finite (1 / 2)) (Finite 0) (Finite 1) 41 42 = Inr 42"
proof -
  have x: "Finite (1 / 2) \<noteq> NaN" by simp
  from note_rounds_half_to_even [OF good_range_0_1 good_notes_40_41(1) x]
  obtain v n where "note_value (Finite (1 / 2)) (Finite 0) (Finite 1) 40 41 = Finite v"
    "map_amp_to_note (Finite (1 / 2)) (Finite 0) (Finite 1) 40 41 = Inr n"
    by blast
  then show ?thesis using half_way_note good_range_0_1 good_notes_40_41 by simp
qed

section \<open>The note state machine: claims\<close>

text \<open>
  Claim C3. From the silent state (\<^verbatim>\<open>prev_note\<close> is \<open>None\<close>), the mapped notes
  40, 40, 41, 41, 40 send note_on(40), note_off(40), note_on(41), note_off(41), note_on(40)
  and nothing else: a repeated note sends nothing, and a changed note sends the note_off of
  the previous note before the note_on of the new one. The prerecorded worker, given data
  that maps to these five notes, sends exactly these five messages. Both scripts' state
  machines send what \<^const>\<open>note_step\<close> gives whenever the port accepts the notes.
\<close>

theorem note_machine_example:
  "fst (note_run vel [40, 40, 41, 41, 40] None)
     = [NoteOn 40 vel, NoteOff 40, NoteOn 41 vel, NoteOff 41, NoteOn 40 vel]
   \<and> note_step vel n (Some n) = ([], Some n)
   \<and> (m \<noteq> n \<longrightarrow> note_step vel m (Some n) = ([NoteOff n, NoteOn m vel], Some m))
   \<and> midi (state_of (prerec_play_worker (demo_args\<lparr>note_high := 41\<rparr>) (Finite 1) (\<lambda>i. False)
                       [Finite 0, Finite 0, Finite 1, Finite 1, Finite 0] identity_filter
                       main_vis_queue))
       = [NoteOn 40 100, NoteOff 40, NoteOn 41 100, NoteOff 41, NoteOn 40 100]
   \<and> (data_byte (velocity A) \<and> data_byte note
        \<and> (case prev_note s of None \<Rightarrow> True | Some p \<Rightarrow> data_byte p) \<longrightarrow>
        live_note_machine A note s
          = Normal (s\<lparr>prev_note := snd (note_step (velocity A) note (prev_note s)),
                      midi := midi s @ fst (note_step (velocity A) note (prev_note s))\<rparr>)
        \<and> prerec_note_machine A note s
          = Normal (s\<lparr>prev_note := snd (note_step (velocity A) note (prev_note s)),
                      midi := midi s @ fst (note_step (velocity A) note (prev_note s))\<rparr>))"
proof -
  have machine: "fst (note_run vel [40, 40, 41, 41, 40] None)
     = [NoteOn 40 vel, NoteOff 40, NoteOn 41 vel, NoteOff 41, NoteOn 40 vel]"
    by (simp add: note_step_def)
  have steps: "note_step vel n (Some n) = ([], Some n)
     \<and> (m \<noteq> n \<longrightarrow> note_step vel m (Some n) = ([NoteOff n, NoteOn m vel], Some m))"
    by (simp add: note_step_def)
  show ?thesis using prerec_five machine steps live_note_machine_step [of A "note" s] by blast
qed

theorem note_machine_example_witness:
  "(41::int) \<noteq> 40 \<and> note_step 100 41 (Some 40) = ([NoteOff 40, NoteOn 41 100], Some 41)
   \<and> data_byte (velocity demo_args) \<and> data_byte 41 \<and> data_byte 40
   \<and> live_note_machine demo_args 41 ((live_init identity_filter main_vis_queue)\<lparr>prev_note := Some 40\<rparr>)
       = Normal ((live_init identity_filter main_vis_queue)
                   \<lparr>prev_note := Some 41, midi := [NoteOff 40, NoteOn 41 100]\<rparr>)"
proof -
  let ?s = "(live_init identity_filter main_vis_queue)\<lparr>prev_note := Some 40\<rparr>"
  note t = note_machine_example [of 100 40 41 demo_args 41 ?s]
  have d: "data_byte (velocity demo_args)" "data_byte 41" "data_byte 40"
    by (simp_all add: data_byte_def demo_args_def)
  have s: "prev_note ?s = Some 40" "midi ?s = []" "velocity demo_args = 100"
    by (simp_all add: live_init_def demo_args_def)
  have "live_note_machine demo_args 41 ?s
      = Normal (?s\<lparr>prev_note := snd (note_step (velocity demo_args) 41 (prev_note ?s)),
                   midi := midi ?s @ fst (note_step (velocity demo_args) 41 (prev_note ?s))\<rparr>)"
    using t d s by simp
  moreover have n: "note_step 100 41 (Some 40) = ([NoteOff 40, NoteOn 41 100], Some 41)"
    using t by simp
  ultimately have "live_note_machine demo_args 41 ?s
      = Normal (?s\<lparr>prev_note := Some 41, midi := [NoteOff 40, NoteOn 41 100]\<rparr>)"
    using s by simp
  then show ?thesis using n d by simp
qed

section \<open>Stream selection and the filter: claims\<close>

text \<open>
  Claim C10. For a non-empty list of matching streams and a non-negative
  \<^verbatim>\<open>stream_index\<close>, the live workers take the stream at position
  \<open>min stream_index (length - 1)\<close>: an index past the end selects the last stream and
  raises no \<^verbatim>\<open>IndexError\<close>.
\<close>

theorem stream_index_clamped:
  "streams \<noteq> [] \<Longrightarrow> 0 \<le> stream_index \<Longrightarrow>
     select_stream streams stream_index
       = Some (Inr (streams ! min (nat stream_index) (length streams - 1)))
     \<and> (int (length streams) \<le> stream_index \<longrightarrow>
          select_stream streams stream_index = Some (Inr (last streams)))"
proof -
  assume ne: "streams \<noteq> []" and nn: "0 \<le> stream_index"
  define k where "k = min stream_index (int (length streams) - 1)"
  have len: "0 < length streams" using ne by simp
  have k: "0 \<le> k" "k < int (length streams)" using len nn by (auto simp: k_def)
  have nk: "nat k = min (nat stream_index) (length streams - 1)"
    using len nn by (auto simp: k_def)
  have "py_index streams k = Inr (streams ! nat k)"
    using k by (simp add: py_index_def)
  then have sel: "select_stream streams stream_index = Some (Inr (streams ! nat k))"
    using ne by (simp add: select_stream_def k_def)
  have "int (length streams) \<le> stream_index \<Longrightarrow> nat k = length streams - 1"
    using len by (auto simp: k_def)
  then have "int (length streams) \<le> stream_index \<Longrightarrow> streams ! nat k = last streams"
    using ne by (simp add: last_conv_nth)
  then show ?thesis using sel nk by simp
qed

theorem stream_index_clamped_witness:
  "[''a'', ''b'', ''c''] \<noteq> [] \<and> (0::int) \<le> 7 \<and> int (length [''a'', ''b'', ''c'']) \<le> 7
   \<and> select_stream [''a'', ''b'', ''c''] 7 = Some (Inr ''c'')"
  using stream_index_clamped [of "[''a'', ''b'', ''c'']" 7] by simp




section \<open>The relay queue: claims\<close>




section \<open>The calibration window: claims\<close>

text \<open>
  Claim C4. In live mode, as long as every sample so far was read less than 30 seconds
  after the start, the MIDI port has been sent nothing, in the note script and in the
  controller script alike: no note_on, no note_off, no control_change; and the note state
  machine has not been driven: \<^verbatim>\<open>prev_note\<close> is still \<open>None\<close>. A pass that brings a
  sample inside the window, in a calibrating worker whose relay queue has room, completes
  without an exception, sends nothing, stays calibrating, and does feed the filtered value
  to the calibrator (the bounds become the minimum and the maximum of the old bound and
  the value, or the value itself the first time) and to the relay (the value is appended to
  the queue).
\<close>

theorem calibration_window_silent:
  "list_all (window_open start_time) polls \<Longrightarrow>
     midi (state_of (live_play_worker A start_time vis polls f q)) = []
     \<and> prev_note (state_of (live_play_worker A start_time vis polls f q)) = None
     \<and> midi (state_of (live_mod_worker A start_time vis polls f q)) = []
     \<and> (calibrating s \<and> window_open start_time (Some (sample, now)) \<and> amp_consistent s
          \<and> py_index sample (channel A) = Inr raw
          \<and> maxsize (vis_queue s) = 2000 \<and> qsize (vis_queue s) < 2000 \<longrightarrow>
        (\<exists>s'. live_play_iter A start_time (Some (sample, now)) s = Normal s'
           \<and> midi s' = midi s \<and> calibrating s' \<and> prev_note s' = prev_note s
           \<and> amp_min s' = Some (fold_amp py_min (amp_min s) (fst (add (filt s) raw)))
           \<and> amp_max s' = Some (fold_amp py_max (amp_max s) (fst (add (filt s) raw)))
           \<and> items (vis_queue s') = items (vis_queue s) @ [fst (add (filt s) raw)])
        \<and> (\<exists>s'. live_mod_iter A start_time (Some (sample, now)) s = Normal s'
           \<and> midi s' = midi s \<and> calibrating s'
           \<and> amp_min s' = Some (fold_amp py_min (amp_min s) (fst (add (filt s) raw)))
           \<and> amp_max s' = Some (fold_amp py_max (amp_max s) (fst (add (filt s) raw)))
           \<and> items (vis_queue s') = items (vis_queue s) @ [fst (add (filt s) raw)]))"
proof -
  assume w: "list_all (window_open start_time) polls"
  have c: "calibrating (live_init f q)" and m: "midi (live_init f q) = []"
    and n: "prev_note (live_init f q) = None"
    by (simp_all add: live_init_def)
  have run: "midi (state_of (live_play_worker A start_time vis polls f q)) = []
     \<and> prev_note (state_of (live_play_worker A start_time vis polls f q)) = None
     \<and> midi (state_of (live_mod_worker A start_time vis polls f q)) = []"
    using live_play_loop_open [OF c w, of A vis 0] live_mod_loop_open [OF c w, of A vis 0] m n
    by (simp add: live_play_worker_def live_mod_worker_def)
  have pass: "(\<exists>s'. live_play_iter A start_time (Some (sample, now)) s = Normal s'
           \<and> midi s' = midi s \<and> calibrating s' \<and> prev_note s' = prev_note s
           \<and> amp_min s' = Some (fold_amp py_min (amp_min s) (fst (add (filt s) raw)))
           \<and> amp_max s' = Some (fold_amp py_max (amp_max s) (fst (add (filt s) raw)))
           \<and> items (vis_queue s') = items (vis_queue s) @ [fst (add (filt s) raw)])
        \<and> (\<exists>s'. live_mod_iter A start_time (Some (sample, now)) s = Normal s'
           \<and> midi s' = midi s \<and> calibrating s'
           \<and> amp_min s' = Some (fold_amp py_min (amp_min s) (fst (add (filt s) raw)))
           \<and> amp_max s' = Some (fold_amp py_max (amp_max s) (fst (add (filt s) raw)))
           \<and> items (vis_queue s') = items (vis_queue s) @ [fst (add (filt s) raw)])"
    if h: "calibrating s \<and> window_open start_time (Some (sample, now)) \<and> amp_consistent s
          \<and> py_index sample (channel A) = Inr raw
          \<and> maxsize (vis_queue s) = 2000 \<and> qsize (vis_queue s) < 2000"
  proof -
    have op: "dlt (fsub now start_time) calibration_duration" using h by (simp add: window_open_def)
    from h have h': "calibrating s" "amp_consistent s" "py_index sample (channel A) = Inr raw"
      "qsize (vis_queue s) < 2000" "maxsize (vis_queue s) = 2000" by simp_all
    show ?thesis
      using live_play_iter_feeds [OF h'(1) op h'(2,3,4,5)]
        live_mod_iter_feeds [OF h'(1) op h'(2,3,4,5)] by blast
  qed
  show ?thesis using run pass by blast
qed

theorem calibration_window_silent_witness:
  "window_open (Finite 0) (Some ([Finite 0, Finite 3], Finite 1)) \<and> window_open (Finite 0) None
   \<and> window_open (Finite 0) (Some ([Finite 0, Finite 5], Finite 29))
   \<and> midi (state_of (live_play_worker demo_args (Finite 0) (\<lambda>i. i = 1)
              [Some ([Finite 0, Finite 3], Finite 1), None, Some ([Finite 0, Finite 5], Finite 29)]
              identity_filter main_vis_queue)) = []
   \<and> midi (state_of (live_mod_worker demo_args (Finite 0) (\<lambda>i. i = 1)
              [Some ([Finite 0, Finite 3], Finite 1), None, Some ([Finite 0, Finite 5], Finite 29)]
              identity_filter main_vis_queue)) = []
   \<and> amp_min (state_of (live_play_iter demo_args (Finite 0) (Some ([Finite 0, Finite 3], Finite 1))
                          (live_init identity_filter main_vis_queue))) = Some (Finite 3)
   \<and> items (vis_queue (state_of (live_mod_iter demo_args (Finite 0)
                (Some ([Finite 0, Finite 3], Finite 1))
                (live_init identity_filter main_vis_queue)))) = [Finite 3]"
proof -
  let ?polls = "[Some ([Finite 0, Finite 3], Finite 1), None, Some ([Finite 0, Finite 5], Finite 29)]"
  let ?s = "live_init identity_filter main_vis_queue"
  have w: "list_all (window_open (Finite 0)) ?polls"
    by (simp add: window_open_def calibration_duration_def double_eval)
  have h: "calibrating ?s \<and> window_open (Finite 0) (Some ([Finite 0, Finite 3], Finite 1))
      \<and> amp_consistent ?s \<and> py_index [Finite 0, Finite 3] (channel demo_args) = Inr (Finite 3)
      \<and> maxsize (vis_queue ?s) = 2000 \<and> qsize (vis_queue ?s) < 2000"
    using w by (simp add: live_init_def amp_consistent_def py_index_def demo_args_def
        main_vis_queue_def Queue_def qsize_def)
  have y: "fst (add (filt ?s) (Finite 3)) = Finite 3"
    by (simp add: live_init_def add_def identity_filter_def double_eval)
  note t = calibration_window_silent [OF w, of demo_args "\<lambda>i. i = 1" identity_filter main_vis_queue
      ?s "[Finite 0, Finite 3]" "Finite 1" "Finite 3"]
  from t h obtain s1 s2 where
    s1: "live_play_iter demo_args (Finite 0) (Some ([Finite 0, Finite 3], Finite 1)) ?s = Normal s1"
      "amp_min s1 = Some (fold_amp py_min (amp_min ?s) (fst (add (filt ?s) (Finite 3))))"
    and s2: "live_mod_iter demo_args (Finite 0) (Some ([Finite 0, Finite 3], Finite 1)) ?s = Normal s2"
      "items (vis_queue s2) = items (vis_queue ?s) @ [fst (add (filt ?s) (Finite 3))]"
    by blast
  have a: "amp_min s1 = Some (Finite 3)" using s1(2) y by (simp add: fold_amp_def live_init_def)
  have b: "items (vis_queue s2) = [Finite 3]"
    using s2(2) y by (simp add: live_init_def main_vis_queue_def Queue_def)
  show ?thesis using t w a b s1(1) s2(1) by simp
qed

section \<open>The end of a run: claims\<close>




end
